theory Spec2Isabelle
  imports Main "HOL-Library.Word" "HOL-Library.AList"
begin

unbundle bit_operations_syntax

section \<open>The routing worker of MaxScale (server/core/routingworker.cc)\<close>

text \<open>
  A shallow embedding of the routing worker: the unit variables \<open>this_unit\<close>, the
  thread-local \<open>this_thread\<close>, the per-thread module initialisation, the timeout scan,
  the zombie queue, the pool of persistent connections and the dispatch primitives.
  Objects that the C++ code reaches through pointers (DCBs, servers, sessions) live in
  explicit stores indexed by their address; every function that mutates them takes the
  store and returns the new one.
\<close>

subsection \<open>Addresses and constants\<close>

type_synonym dcb_ptr = nat
type_synonym server_ptr = nat
type_synonym session_ptr = nat
type_synonym poll_data_ptr = nat

definition WORKER_ABSENT_ID :: int where
  "WORKER_ABSENT_ID = -1"

subsection \<open>The worker object\<close>

record PersistentEntry =
  m_created :: int
  m_pDcb :: dcb_ptr

text \<open>
  \<open>m_dcbs\<close> is an unordered set in the source; it is kept here as a duplicate-free list
  whose order stands for the unspecified iteration order. \<open>m_zombies\<close> is a vector and
  \<open>m_persistent_entries_by_server\<close> a map from server to deque, kept as an association
  list.
\<close>

record routing_worker =
  m_id :: int
  m_should_shutdown :: bool
  m_evicting :: bool
  m_dcbs :: "dcb_ptr list"
  m_zombies :: "dcb_ptr list"
  m_persistent_entries_by_server :: "(server_ptr \<times> PersistentEntry list) list"
  m_next_timeout_check :: int

record this_thread =
  current_worker_id :: int

definition this_thread_initial :: this_thread where
  "this_thread_initial = \<lparr>current_worker_id = WORKER_ABSENT_ID\<rparr>"

subsection \<open>Per-thread initialisation of the loaded modules\<close>

text \<open>
  A module offers two optional callbacks. \<open>thread_init = None\<close> is the NULL function
  pointer; \<open>Some rc\<close> is a callback that returns \<open>rc\<close> when called. The calls made are
  recorded in order, each with the position of the module in the module iterator.
\<close>

record MXS_MODULE =
  thread_init :: "int option"
  thread_finish :: bool

datatype call = THREAD_INIT nat | THREAD_FINISH nat | QC_THREAD_INIT | QC_THREAD_END

text \<open>
  First loop of \<open>modules_thread_init\<close>: the result is the position of the module at which
  the loop broke off (\<open>None\<close> when the iterator was exhausted, i.e. \<open>module == NULL\<close>).
\<close>

fun init_loop :: "MXS_MODULE list \<Rightarrow> nat \<Rightarrow> nat option \<times> call list" where
  "init_loop [] i = (None, [])"
| "init_loop (m # ms) i =
     (case thread_init m of
        None \<Rightarrow> init_loop ms (Suc i)
      | Some rc \<Rightarrow>
          if rc \<noteq> 0 then (Some i, [THREAD_INIT i])
          else (case init_loop ms (Suc i) of (f, t) \<Rightarrow> (f, THREAD_INIT i # t)))"

text \<open>
  Second loop: a fresh iterator, advanced until it yields \<open>failed_module\<close>. Running off
  the end of the iterator cannot happen, the failed module being one of the list.
\<close>

fun finish_loop :: "MXS_MODULE list \<Rightarrow> nat \<Rightarrow> nat \<Rightarrow> call list" where
  "finish_loop [] i failed = []"
| "finish_loop (m # ms) i failed =
     (if i = failed then []
      else (if thread_finish m then [THREAD_FINISH i] else []) @ finish_loop ms (Suc i) failed)"

definition modules_thread_init :: "MXS_MODULE list \<Rightarrow> bool \<times> call list" where
  "modules_thread_init mods =
     (case init_loop mods 0 of
        (Some failed, t) \<Rightarrow> (False, t @ finish_loop mods 0 failed)
      | (None, t) \<Rightarrow> (True, t))"

fun modules_thread_finish_from :: "MXS_MODULE list \<Rightarrow> nat \<Rightarrow> call list" where
  "modules_thread_finish_from [] i = []"
| "modules_thread_finish_from (m # ms) i =
     (if thread_finish m then [THREAD_FINISH i] else []) @ modules_thread_finish_from ms (Suc i)"

definition modules_thread_finish :: "MXS_MODULE list \<Rightarrow> call list" where
  "modules_thread_finish mods = modules_thread_finish_from mods 0"

text \<open>
  \<open>RoutingWorker::pre_run\<close>. The outcome of \<open>qc_thread_init\<close>, which belongs to the query
  classifier, is the parameter \<open>qc_ok\<close>; it is only called when the modules initialised.
  The boolean returned tells the caller whether to run the loop.
\<close>

definition pre_run ::
  "MXS_MODULE list \<Rightarrow> bool \<Rightarrow> routing_worker \<Rightarrow> this_thread \<Rightarrow> bool \<times> this_thread \<times> call list" where
  "pre_run mods qc_ok w th =
     (let th1 = th\<lparr>current_worker_id := m_id w\<rparr>;
          (ok, t) = modules_thread_init mods;
          (rv, t') = (if ok then (qc_ok, t @ [QC_THREAD_INIT]) else (False, t))
      in if \<not> rv then (rv, th1\<lparr>current_worker_id := WORKER_ABSENT_ID\<rparr>, t')
         else (rv, th1, t'))"

text \<open>The calls the claim is about, in the words of the specification.\<close>

definition finish_calls_forward :: "MXS_MODULE list \<Rightarrow> nat \<Rightarrow> call list" where
  "finish_calls_forward mods failed =
     map THREAD_FINISH (filter (\<lambda>j. thread_finish (mods ! j)) [0..<failed])"

definition init_calls_upto :: "MXS_MODULE list \<Rightarrow> nat \<Rightarrow> call list" where
  "init_calls_upto mods failed =
     map THREAD_INIT (filter (\<lambda>j. thread_init (mods ! j) \<noteq> None) [0..<Suc failed])"

definition init_fails_at :: "MXS_MODULE list \<Rightarrow> nat \<Rightarrow> bool" where
  "init_fails_at mods k \<longleftrightarrow>
     k < length mods
     \<and> (\<exists>rc. thread_init (mods ! k) = Some rc \<and> rc \<noteq> 0)
     \<and> (\<forall>j < k. thread_init (mods ! j) = None \<or> thread_init (mods ! j) = Some 0)"

text \<open>
  The order in the words of the specification, \<open>on_thread_finish\<close> invoked in reverse
  on the plugins already initialised; it is compared below with what
  \<open>modules_thread_init\<close> does.
\<close>

definition finish_calls_reversed :: "MXS_MODULE list \<Rightarrow> nat \<Rightarrow> call list" where
  "finish_calls_reversed mods failed = rev (finish_calls_forward mods failed)"

definition ex_modules :: "MXS_MODULE list" where
  "ex_modules =
     [\<lparr>thread_init = Some 0, thread_finish = True\<rparr>,
      \<lparr>thread_init = Some 0, thread_finish = True\<rparr>,
      \<lparr>thread_init = Some 1, thread_finish = True\<rparr>]"

subsection \<open>The unit variables and the creation of the workers\<close>

record this_unit =
  initialized :: bool
  nWorkers :: int
  ppWorkers :: "routing_worker option list"
  next_worker_id :: int
  epoll_listener_fd :: int
  id_main_worker :: int
  id_min_worker :: int
  id_max_worker :: int
  running :: bool

text \<open>The static initialiser of \<open>this_unit\<close>; the NULL array is the empty list.\<close>

definition this_unit_initial :: this_unit where
  "this_unit_initial =
     \<lparr>initialized = False, nWorkers = 0, ppWorkers = [], next_worker_id = 0,
      epoll_listener_fd = -1, id_main_worker = WORKER_ABSENT_ID,
      id_min_worker = WORKER_ABSENT_ID, id_max_worker = WORKER_ABSENT_ID, running = False\<rparr>"

definition INT_MAX :: int where
  "INT_MAX = 2147483647"

definition INT_MIN :: int where
  "INT_MIN = -2147483648"

text \<open>
  Modelled from the spec: \<open>mxb::atomic::add\<close> of maxbase/atomic.hh, which is not among
  the sources, as a fetch-and-add that returns the value held before the addition, so
  that worker ids are dense and start at the initial value of the counter.
\<close>

definition next_worker_id' :: "this_unit \<Rightarrow> int \<times> this_unit" where
  "next_worker_id' u = (next_worker_id u, u\<lparr>next_worker_id := next_worker_id u + 1\<rparr>)"

text \<open>The constructor of \<open>RoutingWorker\<close>: the id is drawn, everything else is empty.\<close>

definition RoutingWorker_new :: "this_unit \<Rightarrow> routing_worker \<times> this_unit" where
  "RoutingWorker_new u =
     (case next_worker_id' u of
        (i, u') \<Rightarrow>
          (\<lparr>m_id = i, m_should_shutdown = False, m_evicting = False, m_dcbs = [],
            m_zombies = [], m_persistent_entries_by_server = [], m_next_timeout_check = 0\<rparr>,
           u'))"

text \<open>
  \<open>RoutingWorker::create\<close>. What the allocator and \<open>epoll_ctl\<close> answer is a parameter:
  \<open>NEW_FAILED\<close> when \<open>new (std::nothrow)\<close> yields NULL (no constructor runs, no id is
  drawn), \<open>EPOLL_CTL_FAILED\<close> when the worker is constructed and then deleted.
\<close>

datatype create_outcome = CREATE_OK | NEW_FAILED | EPOLL_CTL_FAILED

definition create :: "create_outcome \<Rightarrow> this_unit \<Rightarrow> routing_worker option \<times> this_unit" where
  "create oc u =
     (if oc = NEW_FAILED then (None, u)
      else (case RoutingWorker_new u of
              (w, u') \<Rightarrow> if oc = CREATE_OK then (Some w, u') else (None, u')))"

text \<open>
  Reading or writing an array outside its bounds, or through a NULL pointer, is
  undefined in the source; the model makes it a fault.
\<close>

datatype fault = OUT_OF_BOUNDS | NULL_DEREFERENCE

datatype init_stop = CREATE_FAILED | WRITE_OUT_OF_BOUNDS

text \<open>
  The \<open>for\<close> loop of \<open>RoutingWorker::init\<close>, with its locals \<open>ppWorkers\<close>,
  \<open>id_main_worker\<close>, \<open>id_min_worker\<close> and \<open>id_max_worker\<close>.
\<close>

function init_workers ::
  "(int \<Rightarrow> create_outcome) \<Rightarrow> int \<Rightarrow> int \<Rightarrow> routing_worker option list \<times> int \<times> int \<times> int
     \<Rightarrow> this_unit \<Rightarrow> (init_stop + routing_worker option list \<times> int \<times> int \<times> int) \<times> this_unit" where
  "init_workers oc n i (pp, id_main, id_min, id_max) u =
     (if i < n then
        (case create (oc i) u of
           (Some pWorker, u') \<Rightarrow>
             (let ident = m_id pWorker;
                  id_main' = (if id_main = WORKER_ABSENT_ID then ident else id_main);
                  id_min' = (if ident < id_min then ident else id_min);
                  id_max' = (if ident > id_max then ident else id_max)
              in if 0 \<le> i \<and> nat i < length pp
                 then init_workers oc n (i + 1) (pp[nat i := Some pWorker], id_main', id_min', id_max') u'
                 else (Inl WRITE_OUT_OF_BOUNDS, u'))
         | (None, u') \<Rightarrow> (Inl CREATE_FAILED, u'))
      else (Inr (pp, id_main, id_min, id_max), u))"
  by pat_completeness auto
termination
  by (relation "measure (\<lambda>(oc, n, i, loc, u). nat (n - i))") auto

declare init_workers.simps [simp del]

text \<open>
  \<open>RoutingWorker::init\<close>. Parameters: the constant \<open>MXS_MAX_THREADS\<close> (declared in a
  header that is not among the sources), what \<open>epoll_create\<close> returned, the configured
  thread count, whether the array could be allocated, and the outcome of each
  \<open>create\<close>. The result is \<open>None\<close> when the loop writes past the array.
\<close>

definition init ::
  "nat \<Rightarrow> int \<Rightarrow> int \<Rightarrow> bool \<Rightarrow> (int \<Rightarrow> create_outcome) \<Rightarrow> this_unit \<Rightarrow> (bool \<times> this_unit) option" where
  "init MXS_MAX_THREADS epoll_fd threadcount array_ok oc u =
     (let u1 = u\<lparr>epoll_listener_fd := epoll_fd\<rparr>
      in if epoll_fd \<noteq> -1 then
           if array_ok then
             (case init_workers oc threadcount 0
                     (replicate MXS_MAX_THREADS None, WORKER_ABSENT_ID, INT_MAX, INT_MIN) u1 of
                (Inr (pp, id_main, id_min, id_max), u2) \<Rightarrow>
                  (let u3 = u2\<lparr>ppWorkers := pp, nWorkers := threadcount,
                                id_main_worker := id_main, id_min_worker := id_min,
                                id_max_worker := id_max, initialized := True\<rparr>
                   in Some (initialized u3, u3))
              | (Inl CREATE_FAILED, u2) \<Rightarrow> Some (initialized u2, u2)
              | (Inl WRITE_OUT_OF_BOUNDS, u2) \<Rightarrow> None)
           else Some (initialized u1, u1)
         else Some (initialized u1, u1))"

text \<open>
  \<open>RoutingWorker::get\<close>. The enumerator \<open>MAIN\<close> is declared in the class header, which is
  not among the sources; its value is the parameter \<open>MAIN\<close>. \<open>Inr None\<close> is the NULL
  pointer read from a zero-initialised slot.
\<close>

definition get :: "int \<Rightarrow> this_unit \<Rightarrow> int \<Rightarrow> fault + routing_worker option" where
  "get MAIN u worker_id =
     (let wid = (if worker_id = MAIN then id_main_worker u else worker_id)
      in if 0 \<le> wid \<and> nat wid < length (ppWorkers u) then Inr (ppWorkers u ! nat wid)
         else Inl OUT_OF_BOUNDS)"

definition get_current_id :: "this_thread \<Rightarrow> int" where
  "get_current_id th = current_worker_id th"

definition get_current :: "int \<Rightarrow> this_unit \<Rightarrow> this_thread \<Rightarrow> fault + routing_worker option" where
  "get_current MAIN u th =
     (let worker_id = get_current_id th
      in if worker_id \<noteq> WORKER_ABSENT_ID then get MAIN u worker_id else Inr None)"

subsection \<open>Dispatch over the workers\<close>

type_synonym task_ptr = nat
type_synonym sem_ptr = nat
type_synonym func_id = nat

datatype execute_mode_t = EXECUTE_DIRECT | EXECUTE_AUTO | EXECUTE_QUEUED

text \<open>
  The submission methods of the base class \<open>Worker\<close>, whose code is in the base library
  and not among the sources: each tells whether the submission to one worker succeeded.
  They are parameters of everything below.
\<close>

record Worker_methods =
  execute_task :: "routing_worker \<Rightarrow> task_ptr \<Rightarrow> sem_ptr option \<Rightarrow> execute_mode_t \<Rightarrow> bool"
  execute_func :: "routing_worker \<Rightarrow> func_id \<Rightarrow> sem_ptr option \<Rightarrow> execute_mode_t \<Rightarrow> bool"
  post_disposable :: "routing_worker \<Rightarrow> task_ptr \<Rightarrow> execute_mode_t \<Rightarrow> bool"
  post_message :: "routing_worker \<Rightarrow> 32 word \<Rightarrow> int \<Rightarrow> int \<Rightarrow> bool"

text \<open>
  The loop shared by the broadcasting functions:
  \<^verbatim>\<open>for (int i = 0; i < nWorkers; ++i) { pWorker = ppWorkers[i]; if (submit) ++n; }\<close>
  where the local \<open>nWorkers\<close> was read from \<open>this_unit.next_worker_id\<close>.
\<close>

function submit_loop ::
  "(routing_worker \<Rightarrow> bool) \<Rightarrow> routing_worker option list \<Rightarrow> int \<Rightarrow> int \<Rightarrow> nat \<Rightarrow> fault + nat" where
  "submit_loop submit pp bound i n =
     (if i < bound then
        (if 0 \<le> i \<and> nat i < length pp then
           (case pp ! nat i of
              None \<Rightarrow> Inl NULL_DEREFERENCE
            | Some pWorker \<Rightarrow> submit_loop submit pp bound (i + 1) (if submit pWorker then Suc n else n))
         else Inl OUT_OF_BOUNDS)
      else Inr n)"
  by pat_completeness auto
termination
  by (relation "measure (\<lambda>(submit, pp, bound, i, n). nat (bound - i))") auto

declare submit_loop.simps [simp del]

definition broadcast_task ::
  "Worker_methods \<Rightarrow> this_unit \<Rightarrow> task_ptr \<Rightarrow> sem_ptr option \<Rightarrow> fault + nat" where
  "broadcast_task M u pTask pSem =
     submit_loop (\<lambda>w. execute_task M w pTask pSem EXECUTE_AUTO) (ppWorkers u) (next_worker_id u) 0 0"

definition broadcast_disposable :: "Worker_methods \<Rightarrow> this_unit \<Rightarrow> task_ptr \<Rightarrow> fault + nat" where
  "broadcast_disposable M u pTask =
     submit_loop (\<lambda>w. post_disposable M w pTask EXECUTE_AUTO) (ppWorkers u) (next_worker_id u) 0 0"

definition broadcast_func ::
  "Worker_methods \<Rightarrow> this_unit \<Rightarrow> func_id \<Rightarrow> sem_ptr option \<Rightarrow> execute_mode_t \<Rightarrow> fault + nat" where
  "broadcast_func M u func pSem mode =
     submit_loop (\<lambda>w. execute_func M w func pSem mode) (ppWorkers u) (next_worker_id u) 0 0"

text \<open>
  \<open>execute_serially\<close> waits on its semaphore after each successful submission; the wait
  does not change what is counted.
\<close>

definition execute_serially_task :: "Worker_methods \<Rightarrow> this_unit \<Rightarrow> task_ptr \<Rightarrow> sem_ptr \<Rightarrow> fault + nat" where
  "execute_serially_task M u task sem =
     submit_loop (\<lambda>w. execute_task M w task (Some sem) EXECUTE_AUTO) (ppWorkers u) (next_worker_id u) 0 0"

definition execute_serially_func :: "Worker_methods \<Rightarrow> this_unit \<Rightarrow> func_id \<Rightarrow> sem_ptr \<Rightarrow> fault + nat" where
  "execute_serially_func M u func sem =
     submit_loop (\<lambda>w. execute_func M w func (Some sem) EXECUTE_AUTO) (ppWorkers u) (next_worker_id u) 0 0"

definition broadcast_message ::
  "Worker_methods \<Rightarrow> this_unit \<Rightarrow> 32 word \<Rightarrow> int \<Rightarrow> int \<Rightarrow> fault + nat" where
  "broadcast_message M u msg_id arg1 arg2 =
     submit_loop (\<lambda>w. post_message M w msg_id arg1 arg2) (ppWorkers u) (next_worker_id u) 0 0"

text \<open>
  Modelled from the spec: \<open>Worker::shutdown\<close> of the base library, which is not among the
  sources, sets the stop flag of the worker. It returns nothing.
\<close>

definition shutdown :: "routing_worker \<Rightarrow> routing_worker" where
  "shutdown w = w\<lparr>m_should_shutdown := True\<rparr>"

function shutdown_loop ::
  "routing_worker option list \<Rightarrow> int \<Rightarrow> int \<Rightarrow> fault + routing_worker option list" where
  "shutdown_loop pp bound i =
     (if i < bound then
        (if 0 \<le> i \<and> nat i < length pp then
           (case pp ! nat i of
              None \<Rightarrow> Inl NULL_DEREFERENCE
            | Some pWorker \<Rightarrow> shutdown_loop (pp[nat i := Some (shutdown pWorker)]) bound (i + 1))
         else Inl OUT_OF_BOUNDS)
      else Inr pp)"
  by pat_completeness auto
termination
  by (relation "measure (\<lambda>(pp, bound, i). nat (bound - i))") auto

declare shutdown_loop.simps [simp del]

definition shutdown_all :: "this_unit \<Rightarrow> fault + this_unit" where
  "shutdown_all u =
     (case shutdown_loop (ppWorkers u) (next_worker_id u) 0 of
        Inl f \<Rightarrow> Inl f
      | Inr pp \<Rightarrow> Inr (u\<lparr>ppWorkers := pp\<rparr>))"

text \<open>
  The primitives side by side, each with what it hands back to its caller: a count of
  type \<open>size_t\<close>, or nothing for the \<open>void\<close> function.
\<close>

datatype primitive =
    BROADCAST_TASK task_ptr "sem_ptr option"
  | BROADCAST_DISPOSABLE task_ptr
  | BROADCAST_FUNC func_id "sem_ptr option" execute_mode_t
  | EXECUTE_SERIALLY_TASK task_ptr sem_ptr
  | EXECUTE_SERIALLY_FUNC func_id sem_ptr
  | BROADCAST_MESSAGE "32 word" int int
  | SHUTDOWN_ALL

datatype returned = VOID | COUNT nat

definition counted :: "this_unit \<Rightarrow> fault + nat \<Rightarrow> fault + returned \<times> this_unit" where
  "counted u r = (case r of Inl f \<Rightarrow> Inl f | Inr n \<Rightarrow> Inr (COUNT n, u))"

fun dispatch :: "Worker_methods \<Rightarrow> primitive \<Rightarrow> this_unit \<Rightarrow> fault + returned \<times> this_unit" where
  "dispatch M (BROADCAST_TASK t s) u = counted u (broadcast_task M u t s)"
| "dispatch M (BROADCAST_DISPOSABLE t) u = counted u (broadcast_disposable M u t)"
| "dispatch M (BROADCAST_FUNC f s m) u = counted u (broadcast_func M u f s m)"
| "dispatch M (EXECUTE_SERIALLY_TASK t s) u = counted u (execute_serially_task M u t s)"
| "dispatch M (EXECUTE_SERIALLY_FUNC f s) u = counted u (execute_serially_func M u f s)"
| "dispatch M (BROADCAST_MESSAGE i a b) u = counted u (broadcast_message M u i a b)"
| "dispatch M SHUTDOWN_ALL u =
     (case shutdown_all u of Inl f \<Rightarrow> Inl f | Inr u' \<Rightarrow> Inr (VOID, u'))"

text \<open>The submission that a primitive makes to one worker.\<close>

fun submission :: "Worker_methods \<Rightarrow> primitive \<Rightarrow> routing_worker \<Rightarrow> bool" where
  "submission M (BROADCAST_TASK t s) w = execute_task M w t s EXECUTE_AUTO"
| "submission M (BROADCAST_DISPOSABLE t) w = post_disposable M w t EXECUTE_AUTO"
| "submission M (BROADCAST_FUNC f s m) w = execute_func M w f s m"
| "submission M (EXECUTE_SERIALLY_TASK t s) w = execute_task M w t (Some s) EXECUTE_AUTO"
| "submission M (EXECUTE_SERIALLY_FUNC f s) w = execute_func M w f (Some s) EXECUTE_AUTO"
| "submission M (BROADCAST_MESSAGE i a b) w = post_message M w i a b"
| "submission M SHUTDOWN_ALL w = True"

text \<open>
  The workers at the indices \<open>0 \<dots> next_worker_id - 1\<close>, and the number of them that
  accept a submission.
\<close>

definition workers_below :: "this_unit \<Rightarrow> routing_worker option list" where
  "workers_below u = take (nat (next_worker_id u)) (ppWorkers u)"

definition slots_filled :: "this_unit \<Rightarrow> bool" where
  "slots_filled u \<longleftrightarrow>
     nat (next_worker_id u) \<le> length (ppWorkers u) \<and> None \<notin> set (workers_below u)"

definition n_succeeded :: "(routing_worker \<Rightarrow> bool) \<Rightarrow> this_unit \<Rightarrow> nat" where
  "n_succeeded submit u = length (filter submit (map the (workers_below u)))"

definition shut_down_below :: "this_unit \<Rightarrow> this_unit" where
  "shut_down_below u =
     u\<lparr>ppWorkers := map (map_option shutdown) (workers_below u)
                      @ drop (nat (next_worker_id u)) (ppWorkers u)\<rparr>"

subsection \<open>The shared epoll instance\<close>

text \<open>\<open>EPOLLET\<close> of the Linux header sys/epoll.h: \<open>1u << 31\<close>.\<close>

definition EPOLLET :: "32 word" where
  "EPOLLET = push_bit 31 1"

record epoll_event =
  events :: "32 word"
  data_ptr :: poll_data_ptr

record MXB_POLL_DATA =
  owner :: "routing_worker option"

text \<open>
  The process state that \<open>add_shared_fd\<close> touches: the unit variables, the poll data
  objects by address, and the interest list of the epoll instance
  \<open>this_unit.epoll_listener_fd\<close>.
\<close>

record process =
  the_unit :: this_unit
  poll_data :: "poll_data_ptr \<Rightarrow> MXB_POLL_DATA"
  epoll_listener :: "int \<rightharpoonup> epoll_event"

text \<open>
  \<open>epoll_ctl\<close> with \<open>EPOLL_CTL_ADD\<close>, a system call: it fails for a descriptor that is
  already registered, and otherwise as the kernel decides (the parameter \<open>accepts\<close>).
\<close>

definition epoll_ctl_ADD ::
  "bool \<Rightarrow> (int \<rightharpoonup> epoll_event) \<Rightarrow> int \<Rightarrow> epoll_event \<Rightarrow> int \<times> (int \<rightharpoonup> epoll_event)" where
  "epoll_ctl_ADD accepts interest fd ev =
     (if fd \<in> dom interest \<or> \<not> accepts then (-1, interest) else (0, interest(fd \<mapsto> ev)))"

definition add_shared_fd ::
  "int \<Rightarrow> bool \<Rightarrow> int \<Rightarrow> 32 word \<Rightarrow> poll_data_ptr \<Rightarrow> process \<Rightarrow> fault + bool \<times> process" where
  "add_shared_fd MAIN accepts fd evs pData st =
     (let evs' = evs AND NOT EPOLLET;
          ev = \<lparr>events = evs', data_ptr = pData\<rparr>
      in case get MAIN (the_unit st) MAIN of
           Inl f \<Rightarrow> Inl f
         | Inr main \<Rightarrow>
             (let st1 = st\<lparr>poll_data := (poll_data st)(pData := (poll_data st pData)\<lparr>owner := main\<rparr>)\<rparr>
              in case epoll_ctl_ADD accepts (epoll_listener st1) fd ev of
                   (rc, interest) \<Rightarrow>
                     if rc \<noteq> 0 then Inr (False, st1\<lparr>epoll_listener := interest\<rparr>)
                     else Inr (True, st1\<lparr>epoll_listener := interest\<rparr>)))"

subsection \<open>DCBs, sessions and servers\<close>

text \<open>
  The classes DCB, Session, SERVICE and Server are declared in headers that are not
  among the sources. The records below hold what the worker reads and writes through
  their accessors, under the accessors' names. The states are those the specification
  lists. The timeouts are in seconds and, by the configuration surface, not negative:
  they are naturals.
\<close>

datatype Role = CLIENT | BACKEND | INTERNAL

datatype State = ALLOCATED | POLLING | NOPOLLING | DISCONNECTED

datatype Handler = PROTOCOL | POOL_HANDLER

datatype close_reason_t = SESSION_CLOSE_NONE | SESSION_CLOSE_TIMEOUT

record service_config =
  conn_idle_timeout :: nat
  net_write_timeout :: nat

record MXS_SESSION =
  close_reason :: close_reason_t
  service :: service_config
  valid_for_pool :: bool

text \<open>
  \<open>established\<close> and \<open>reuse_connection\<close> are the answers of the protocol object of the
  DCB; \<open>triggered_hangups\<close> counts the calls of \<open>trigger_hangup_event\<close>, which only
  schedules the event. \<open>disabled_state\<close> is the state in which a call of \<open>disable_events\<close>
  leaves the DCB: the method is not among the sources and the specification gives it
  no effect, so the outcome is left to the DCB.
\<close>

record DCB =
  role :: Role
  state :: State
  session :: "session_ptr option"
  server :: server_ptr
  last_read :: int
  last_write :: int
  writeq_len :: nat
  hanged_up :: bool
  handler :: Handler
  established :: bool
  reuse_connection :: bool
  triggered_hangups :: nat
  is_shutdown :: bool
  disabled_state :: State

text \<open>
  \<open>is_running\<close> is the answer of \<open>Server::is_running()\<close>, \<open>status_running\<close> that of
  \<open>status() & SERVER_RUNNING\<close>, and \<open>persistent_conns_enabled\<close> that of the method of
  this name; the source does not say how they are related, so they are independent.
\<close>

record Server =
  persistent_conns_enabled :: bool
  is_running :: bool
  status_running :: bool
  persistpoolmax :: int
  persistmaxtime :: int
  n_persistent :: int
  n_from_pool :: int
  n_current :: int
  persistmax :: int

record world =
  self :: routing_worker
  dcbs :: "dcb_ptr \<Rightarrow> DCB"
  sessions :: "session_ptr \<Rightarrow> MXS_SESSION"
  servers :: "server_ptr \<Rightarrow> Server"

definition upd_self :: "(routing_worker \<Rightarrow> routing_worker) \<Rightarrow> world \<Rightarrow> world" where
  "upd_self f wd = wd\<lparr>self := f (self wd)\<rparr>"

definition upd_dcb :: "dcb_ptr \<Rightarrow> (DCB \<Rightarrow> DCB) \<Rightarrow> world \<Rightarrow> world" where
  "upd_dcb p f wd = wd\<lparr>dcbs := (dcbs wd)(p := f (dcbs wd p))\<rparr>"

definition upd_server :: "server_ptr \<Rightarrow> (Server \<Rightarrow> Server) \<Rightarrow> world \<Rightarrow> world" where
  "upd_server p f wd = wd\<lparr>servers := (servers wd)(p := f (servers wd p))\<rparr>"

definition upd_session :: "session_ptr \<Rightarrow> (MXS_SESSION \<Rightarrow> MXS_SESSION) \<Rightarrow> world \<Rightarrow> world" where
  "upd_session p f wd = wd\<lparr>sessions := (sessions wd)(p := f (sessions wd p))\<rparr>"

text \<open>
  Modelled from the spec: the methods of DCB and Session that the worker calls and
  whose code is not among the sources. \<open>trigger_hangup_event\<close> synthesises a hangup
  event; \<open>disable_events\<close> stops the polling of the DCB and leaves it in its
  \<open>disabled_state\<close>; \<open>shutdown\<close> shuts the socket down; \<open>clear\<close> resets the per-session state; \<open>link_backend_dcb\<close> binds the DCB to the
  session; \<open>set_handler\<close> swaps the handler.
\<close>

definition trigger_hangup_event :: "dcb_ptr \<Rightarrow> world \<Rightarrow> world" where
  "trigger_hangup_event p = upd_dcb p (\<lambda>d. d\<lparr>triggered_hangups := Suc (triggered_hangups d)\<rparr>)"

definition disable_events :: "dcb_ptr \<Rightarrow> world \<Rightarrow> world" where
  "disable_events p = upd_dcb p (\<lambda>d. d\<lparr>state := disabled_state d\<rparr>)"

definition DCB_shutdown :: "dcb_ptr \<Rightarrow> world \<Rightarrow> world" where
  "DCB_shutdown p = upd_dcb p (\<lambda>d. d\<lparr>is_shutdown := True\<rparr>)"

definition clear :: "dcb_ptr \<Rightarrow> world \<Rightarrow> world" where
  "clear p = upd_dcb p (\<lambda>d. d\<lparr>session := None\<rparr>)"

definition link_backend_dcb :: "session_ptr \<Rightarrow> dcb_ptr \<Rightarrow> world \<Rightarrow> world" where
  "link_backend_dcb ses p = upd_dcb p (\<lambda>d. d\<lparr>session := Some ses\<rparr>)"

definition set_handler :: "dcb_ptr \<Rightarrow> Handler \<Rightarrow> world \<Rightarrow> world" where
  "set_handler p h = upd_dcb p (\<lambda>d. d\<lparr>handler := h\<rparr>)"

subsection \<open>The live set and the zombie queue\<close>

text \<open>\<open>m_dcbs.insert\<close> and the erasure of a found element.\<close>

definition dcbs_insert :: "dcb_ptr \<Rightarrow> routing_worker \<Rightarrow> routing_worker" where
  "dcbs_insert p w = (if p \<in> set (m_dcbs w) then w else w\<lparr>m_dcbs := m_dcbs w @ [p]\<rparr>)"

definition dcbs_erase :: "dcb_ptr \<Rightarrow> routing_worker \<Rightarrow> routing_worker" where
  "dcbs_erase p w = w\<lparr>m_dcbs := remove1 p (m_dcbs w)\<rparr>"

text \<open>\<open>RoutingWorker::destroy\<close>.\<close>

definition destroy :: "dcb_ptr \<Rightarrow> routing_worker \<Rightarrow> routing_worker" where
  "destroy pDcb w = w\<lparr>m_zombies := m_zombies w @ [pDcb]\<rparr>"

text \<open>
  Modelled from the spec: \<open>DCB::Manager::call_destroy\<close>, which is not among the sources.
  The final closing of a DCB may cause other DCBs to be registered in the zombie queue:
  \<open>closes p\<close> lists them (the backend DCBs of a client DCB, say).
\<close>

definition call_destroy ::
  "(dcb_ptr \<Rightarrow> dcb_ptr list) \<Rightarrow> dcb_ptr \<Rightarrow> routing_worker \<Rightarrow> routing_worker" where
  "call_destroy closes pDcb w = fold destroy (closes pDcb) w"

text \<open>
  \<open>RoutingWorker::delete_zombies\<close>. The loop runs for as long as the queue is not
  empty, so the function is partial: \<open>None\<close> stands for a drain that never returns.
  The last argument records the DCBs destroyed so far, in order.
\<close>

partial_function (option) delete_zombies ::
  "(dcb_ptr \<Rightarrow> dcb_ptr list) \<Rightarrow> routing_worker \<Rightarrow> dcb_ptr list \<Rightarrow> (routing_worker \<times> dcb_ptr list) option" where
  "delete_zombies closes w destroyed =
     (if m_zombies w = [] then Some (w, destroyed)
      else delete_zombies closes
             (call_destroy closes (last (m_zombies w)) (w\<lparr>m_zombies := butlast (m_zombies w)\<rparr>))
             (destroyed @ [last (m_zombies w)]))"

subsection \<open>The timeout scan\<close>

text \<open>
  The body of the loop of \<open>RoutingWorker::process_timeouts\<close> for one DCB. The clock
  \<open>mxs_clock()\<close>, in ticks of 100 ms, is the parameter \<open>now\<close>. \<open>pDcb->service()\<close> is the
  service of the session of the DCB.
\<close>

definition process_dcb :: "int \<Rightarrow> dcb_ptr \<Rightarrow> world \<Rightarrow> fault + world" where
  "process_dcb now pDcb wd =
     (if role (dcbs wd pDcb) = CLIENT \<and> state (dcbs wd pDcb) = POLLING then
        (case session (dcbs wd pDcb) of
           None \<Rightarrow> Inl NULL_DEREFERENCE
         | Some ses \<Rightarrow>
             (let config = service (sessions wd ses);
                  wd1 = (if conn_idle_timeout config \<noteq> 0 then
                           (let idle = now - last_read (dcbs wd pDcb);
                                timeout = int (conn_idle_timeout config) * 10
                            in if idle > timeout
                               then trigger_hangup_event pDcb
                                      (upd_session ses (\<lambda>s. s\<lparr>close_reason := SESSION_CLOSE_TIMEOUT\<rparr>) wd)
                               else wd)
                         else wd);
                  wd2 = (if net_write_timeout config \<noteq> 0 \<and> writeq_len (dcbs wd1 pDcb) > 0 then
                           (let idle = now - last_write (dcbs wd1 pDcb)
                            in if idle > int (net_write_timeout (service (sessions wd1 ses))) * 10
                               then trigger_hangup_event pDcb
                                      (upd_session ses (\<lambda>s. s\<lparr>close_reason := SESSION_CLOSE_TIMEOUT\<rparr>) wd1)
                               else wd1)
                         else wd1)
              in Inr wd2))
      else Inr wd)"

fun scan_dcbs :: "int \<Rightarrow> dcb_ptr list \<Rightarrow> world \<Rightarrow> fault + world" where
  "scan_dcbs now [] wd = Inr wd"
| "scan_dcbs now (p # ps) wd =
     (case process_dcb now p wd of Inl f \<Rightarrow> Inl f | Inr wd' \<Rightarrow> scan_dcbs now ps wd')"

definition process_timeouts :: "int \<Rightarrow> world \<Rightarrow> fault + world" where
  "process_timeouts now wd =
     (if now \<ge> m_next_timeout_check (self wd)
      then scan_dcbs now (m_dcbs (self wd))
             (upd_self (\<lambda>w. w\<lparr>m_next_timeout_check := now + 10\<rparr>) wd)
      else Inr wd)"

text \<open>
  \<open>RoutingWorker::epoll_tick\<close>. The registered tick functions are closures over
  anything; they are taken as functions on the world.
\<close>

definition epoll_tick ::
  "int \<Rightarrow> (dcb_ptr \<Rightarrow> dcb_ptr list) \<Rightarrow> (world \<Rightarrow> world) list \<Rightarrow> world \<Rightarrow> (fault + world) option" where
  "epoll_tick now closes tick_funcs wd =
     (case process_timeouts now wd of
        Inl f \<Rightarrow> Some (Inl f)
      | Inr wd1 \<Rightarrow>
          (case delete_zombies closes (self wd1) [] of
             None \<Rightarrow> None
           | Some (w, destroyed) \<Rightarrow> Some (Inr (fold (\<lambda>func. func) tick_funcs (wd1\<lparr>self := w\<rparr>)))))"

text \<open>The conditions of the timeout scan, in the words of the specification.\<close>

definition examined :: "DCB \<Rightarrow> bool" where
  "examined d \<longleftrightarrow> role d = CLIENT \<and> state d = POLLING"

definition idle_too_long :: "int \<Rightarrow> service_config \<Rightarrow> DCB \<Rightarrow> bool" where
  "idle_too_long now config d \<longleftrightarrow>
     conn_idle_timeout config > 0 \<and> now - last_read d > 10 * int (conn_idle_timeout config)"

definition write_too_long :: "int \<Rightarrow> service_config \<Rightarrow> DCB \<Rightarrow> bool" where
  "write_too_long now config d \<longleftrightarrow>
     net_write_timeout config > 0 \<and> writeq_len d > 0
     \<and> now - last_write d > 10 * int (net_write_timeout config)"

definition timed_out :: "int \<Rightarrow> world \<Rightarrow> dcb_ptr \<Rightarrow> bool" where
  "timed_out now wd p \<longleftrightarrow>
     examined (dcbs wd p)
     \<and> (case session (dcbs wd p) of
          None \<Rightarrow> False
        | Some ses \<Rightarrow> idle_too_long now (service (sessions wd ses)) (dcbs wd p)
                      \<or> write_too_long now (service (sessions wd ses)) (dcbs wd p))"

subsection \<open>The pool of persistent connections\<close>

datatype Evict = Evict_EXPIRED | Evict_ALL

text \<open>
  \<open>m_persistent_entries_by_server[pServer]\<close>: a server without a deque reads as the
  empty deque.
\<close>

definition entries_of :: "routing_worker \<Rightarrow> server_ptr \<Rightarrow> PersistentEntry list" where
  "entries_of w pS =
     (case map_of (m_persistent_entries_by_server w) pS of None \<Rightarrow> [] | Some es \<Rightarrow> es)"

definition set_entries :: "server_ptr \<Rightarrow> PersistentEntry list \<Rightarrow> routing_worker \<Rightarrow> routing_worker" where
  "set_entries pS es w =
     w\<lparr>m_persistent_entries_by_server := AList.update pS es (m_persistent_entries_by_server w)\<rparr>"

text \<open>
  Modelled from the spec: \<open>DCB::close\<close>, which is not among the sources, asks
  \<open>can_be_destroyed\<close> and hands the DCB to \<open>destroy\<close> when the answer is true. This is
  \<open>DCB_close\<close>, which follows \<open>can_be_destroyed\<close> below. \<open>can_be_destroyed\<close> itself
  closes DCBs, through \<open>evict_dcbs\<close> and \<open>close_pooled_dcb\<close>; that close is made while
  \<open>m_evicting\<close> is set (\<open>close_pooled_dcb\<close> asserts it), where \<open>can_be_destroyed\<close>
  answers true before doing anything else, and it is \<open>DCB_close_evicting\<close>.
\<close>

definition DCB_close_evicting :: "dcb_ptr \<Rightarrow> world \<Rightarrow> world" where
  "DCB_close_evicting pDcb = upd_self (destroy pDcb)"

text \<open>\<open>RoutingWorker::close_pooled_dcb\<close>.\<close>

definition close_pooled_dcb :: "dcb_ptr \<Rightarrow> world \<Rightarrow> world" where
  "close_pooled_dcb pDcb wd =
     (let wd1 = upd_self (dcbs_insert pDcb) wd;
          wd2 = (if state (dcbs wd1 pDcb) = POLLING
                 then DCB_shutdown pDcb (disable_events pDcb wd1) else wd1)
      in DCB_close_evicting pDcb wd2)"

text \<open>
  The \<open>while\<close> loop of \<open>evict_dcbs\<close> over the deque. The arguments are the locals
  \<open>evict == Evict::ALL\<close>, \<open>now\<close>, \<open>persistmaxtime\<close>, \<open>persistpoolmax\<close>, the rest of the
  deque from the iterator on, \<open>count\<close>, and the counter \<open>pool_stats.n_persistent\<close>; the
  results are the entries left in the deque, \<open>to_be_evicted\<close>, \<open>count\<close> and the counter.
\<close>

fun evict_loop ::
  "(dcb_ptr \<Rightarrow> bool) \<Rightarrow> bool \<Rightarrow> int \<Rightarrow> int \<Rightarrow> int \<Rightarrow> PersistentEntry list \<Rightarrow> int \<Rightarrow> int
     \<Rightarrow> PersistentEntry list \<times> dcb_ptr list \<times> int \<times> int" where
  "evict_loop hup evict_all now maxtime poolmax [] count n = ([], [], count, n)"
| "evict_loop hup evict_all now maxtime poolmax (entry # rest) count n =
     (let hanged = hup (m_pDcb entry);
          expired = (evict_all \<or> now - m_created entry > maxtime);
          too_many = (count > poolmax)
      in if hanged \<or> expired \<or> too_many
         then (case evict_loop hup evict_all now maxtime poolmax rest count (n - 1) of
                 (kept, to_be_evicted, c, n') \<Rightarrow> (kept, m_pDcb entry # to_be_evicted, c, n'))
         else (case evict_loop hup evict_all now maxtime poolmax rest (count + 1) n of
                 (kept, to_be_evicted, c, n') \<Rightarrow> (entry # kept, to_be_evicted, c, n')))"

text \<open>\<open>RoutingWorker::evict_dcbs(SERVER*, Evict)\<close>; \<open>now\<close> is \<open>time(nullptr)\<close>.\<close>

definition evict_dcbs :: "int \<Rightarrow> server_ptr \<Rightarrow> Evict \<Rightarrow> world \<Rightarrow> int \<times> world" where
  "evict_dcbs now pS evict wd =
     (let wd1 = upd_self (\<lambda>w. w\<lparr>m_evicting := True\<rparr>) wd;
          srv = servers wd1 pS;
          evict' = (if \<not> status_running srv then Evict_ALL else evict)
      in case evict_loop (\<lambda>p. hanged_up (dcbs wd1 p)) (evict' = Evict_ALL) now
                (persistmaxtime srv) (persistpoolmax srv) (entries_of (self wd1) pS) 0
                (n_persistent srv) of
           (kept, to_be_evicted, count, n') \<Rightarrow>
             (let wd2 = upd_server pS (\<lambda>s. s\<lparr>n_persistent := n'\<rparr>)
                          (upd_self (set_entries pS kept) wd1);
                  wd3 = upd_server pS (\<lambda>s. s\<lparr>persistmax := max (persistmax s) count\<rparr>) wd2;
                  wd4 = fold close_pooled_dcb to_be_evicted wd3
              in (count, upd_self (\<lambda>w. w\<lparr>m_evicting := False\<rparr>) wd4)))"

text \<open>\<open>RoutingWorker::evict_dcbs(Evict)\<close>, over the servers that have a deque.\<close>

definition evict_dcbs_all :: "int \<Rightarrow> Evict \<Rightarrow> world \<Rightarrow> world" where
  "evict_dcbs_all now evict wd =
     fold (\<lambda>pS wd'. snd (evict_dcbs now pS evict wd'))
          (map fst (m_persistent_entries_by_server (self wd))) wd"

text \<open>
  \<open>RoutingWorker::evict_dcb\<close>, called by the pool handler on any activity on a pooled
  DCB. The entry is asserted to be found; erasing \<open>end()\<close> is a fault.
\<close>

definition evict_dcb :: "dcb_ptr \<Rightarrow> world \<Rightarrow> fault + world" where
  "evict_dcb pDcb wd =
     (let wd1 = upd_self (\<lambda>w. w\<lparr>m_evicting := True\<rparr>) wd;
          pS = server (dcbs wd1 pDcb)
      in case find (\<lambda>entry. m_pDcb entry = pDcb) (entries_of (self wd1) pS) of
           None \<Rightarrow> Inl OUT_OF_BOUNDS
         | Some entry \<Rightarrow>
             (let wd2 = upd_self (set_entries pS (remove1 entry (entries_of (self wd1) pS))) wd1;
                  wd3 = close_pooled_dcb pDcb wd2
              in Inr (upd_self (\<lambda>w. w\<lparr>m_evicting := False\<rparr>) wd3)))"

text \<open>
  Modelled from the spec: \<open>mxb::atomic::add_limited\<close> of maxbase/atomic.hh, which is not
  among the sources: the atomic bounded increment, which adds only if the result does
  not exceed the bound. \<open>None\<close> is the answer false.
\<close>

definition add_limited :: "int \<Rightarrow> int \<Rightarrow> int \<Rightarrow> int option" where
  "add_limited v a limit = (if v + a \<le> limit then Some (v + a) else None)"

text \<open>
  \<open>int persistpoolmax = pServer->persistpoolmax();\<close> in \<open>can_be_destroyed\<close> holds the
  maximum in an \<open>int\<close>, whereas \<open>evict_dcbs\<close> holds it in an \<open>auto\<close>, with the type of
  the accessor, which is declared in a header that is not among the sources. A value of
  a wider type is narrowed to 32 bits in two's complement; a value that fits in an \<open>int\<close>
  is kept as it is.
\<close>

definition int_of_long :: "int \<Rightarrow> int" where
  "int_of_long v = (v + 2147483648) mod 4294967296 - 2147483648"

text \<open>
  \<open>RoutingWorker::can_be_destroyed\<close>. \<open>poolable\<close> is the chain of conditions before the
  call of \<open>evict_dcbs\<close>. The DCB is asserted to be in the live set; erasing \<open>end()\<close> is a
  fault. The entry is stamped with \<open>time(nullptr)\<close>.
\<close>

definition poolable :: "world \<Rightarrow> dcb_ptr \<Rightarrow> bool" where
  "poolable wd pDcb \<longleftrightarrow>
     state (dcbs wd pDcb) = POLLING
     \<and> established (dcbs wd pDcb)
     \<and> (case session (dcbs wd pDcb) of None \<Rightarrow> False | Some ses \<Rightarrow> valid_for_pool (sessions wd ses))
     \<and> int_of_long (persistpoolmax (servers wd (server (dcbs wd pDcb)))) > 0
     \<and> is_running (servers wd (server (dcbs wd pDcb)))
     \<and> \<not> hanged_up (dcbs wd pDcb)"

definition add_to_pool :: "int \<Rightarrow> dcb_ptr \<Rightarrow> server_ptr \<Rightarrow> world \<Rightarrow> fault + world" where
  "add_to_pool now pDcb pServer wd =
     (let wd1 = clear pDcb wd;
          wd2 = set_handler pDcb POOL_HANDLER wd1;
          wd3 = upd_self (\<lambda>w. set_entries pServer
                            (entries_of w pServer @ [\<lparr>m_created = now, m_pDcb = pDcb\<rparr>]) w) wd2
      in if pDcb \<in> set (m_dcbs (self wd3))
         then Inr (upd_server pServer (\<lambda>s. s\<lparr>n_current := n_current s - 1\<rparr>)
                     (upd_self (dcbs_erase pDcb) wd3))
         else Inl OUT_OF_BOUNDS)"

definition can_be_destroyed :: "int \<Rightarrow> dcb_ptr \<Rightarrow> world \<Rightarrow> fault + bool \<times> world" where
  "can_be_destroyed now pDcb wd =
     (if \<not> m_evicting (self wd) then
        (let pServer = server (dcbs wd pDcb);
             poolmax = int_of_long (persistpoolmax (servers wd pServer))
         in if poolable wd pDcb then
              (case evict_dcbs now pServer Evict_EXPIRED wd of
                 (count, wd1) \<Rightarrow>
                   if count < poolmax then
                     (case add_limited (n_persistent (servers wd1 pServer)) 1 poolmax of
                        Some n' \<Rightarrow>
                          (case add_to_pool now pDcb pServer
                                  (upd_server pServer (\<lambda>s. s\<lparr>n_persistent := n'\<rparr>) wd1) of
                             Inl f \<Rightarrow> Inl f
                           | Inr wd2 \<Rightarrow> Inr (False, wd2))
                      | None \<Rightarrow> Inr (True, wd1))
                   else Inr (True, wd1))
            else Inr (True, wd))
      else Inr (True, wd))"

definition DCB_close :: "int \<Rightarrow> dcb_ptr \<Rightarrow> world \<Rightarrow> fault + world" where
  "DCB_close now pDcb wd =
     (case can_be_destroyed now pDcb wd of
        Inl f \<Rightarrow> Inl f
      | Inr (rv, wd') \<Rightarrow> Inr (if rv then upd_self (destroy pDcb) wd' else wd'))"

text \<open>Reading the stores after an update.\<close>

lemma self_upd [simp]:
  "self (upd_self f wd) = f (self wd)"
  "self (upd_dcb p g wd) = self wd"
  "self (upd_server q h wd) = self wd"
  "self (upd_session r k wd) = self wd"
  by (simp_all add: upd_self_def upd_dcb_def upd_server_def upd_session_def)

lemma dcbs_upd [simp]:
  "dcbs (upd_self f wd) = dcbs wd"
  "dcbs (upd_dcb p g wd) = (dcbs wd)(p := g (dcbs wd p))"
  "dcbs (upd_server q h wd) = dcbs wd"
  "dcbs (upd_session r k wd) = dcbs wd"
  by (simp_all add: upd_self_def upd_dcb_def upd_server_def upd_session_def)

lemma servers_upd [simp]:
  "servers (upd_self f wd) = servers wd"
  "servers (upd_dcb p g wd) = servers wd"
  "servers (upd_server q h wd) = (servers wd)(q := h (servers wd q))"
  "servers (upd_session r k wd) = servers wd"
  by (simp_all add: upd_self_def upd_dcb_def upd_server_def upd_session_def)

lemma sessions_upd [simp]:
  "sessions (upd_self f wd) = sessions wd"
  "sessions (upd_dcb p g wd) = sessions wd"
  "sessions (upd_server q h wd) = sessions wd"
  "sessions (upd_session r k wd) = (sessions wd)(r := k (sessions wd r))"
  by (simp_all add: upd_self_def upd_dcb_def upd_server_def upd_session_def)

lemmas dcb_methods =
  trigger_hangup_event_def disable_events_def DCB_shutdown_def clear_def
  link_backend_dcb_def set_handler_def

lemma entries_of_set_entries [simp]:
  "entries_of (set_entries pS es w) pS' = (if pS' = pS then es else entries_of w pS')"
  by (simp add: entries_of_def set_entries_def update_conv')

lemma entries_of_fields [simp]:
  "entries_of (w\<lparr>m_evicting := b\<rparr>) pS = entries_of w pS"
  "entries_of (w\<lparr>m_dcbs := ds\<rparr>) pS = entries_of w pS"
  "entries_of (w\<lparr>m_zombies := zs\<rparr>) pS = entries_of w pS"
  "entries_of (w\<lparr>m_next_timeout_check := t\<rparr>) pS = entries_of w pS"
  by (simp_all add: entries_of_def)

lemma entries_of_live [simp]:
  "entries_of (dcbs_insert p w) pS = entries_of w pS"
  "entries_of (dcbs_erase p w) pS = entries_of w pS"
  "entries_of (destroy p w) pS = entries_of w pS"
  by (simp_all add: dcbs_insert_def dcbs_erase_def destroy_def)

text \<open>
  With \<open>m_evicting\<close> set, \<open>can_be_destroyed\<close> answers true before anything else, and
  \<open>DCB::close\<close> hands the DCB to \<open>destroy\<close>.
\<close>

lemma can_be_destroyed_evicting:
  "m_evicting (self wd) \<Longrightarrow> can_be_destroyed now p wd = Inr (True, wd)"
  by (simp add: can_be_destroyed_def)

lemma DCB_close_evicting:
  "m_evicting (self wd) \<Longrightarrow> DCB_close now p wd = Inr (DCB_close_evicting p wd)"
  by (simp add: DCB_close_def can_be_destroyed_evicting DCB_close_evicting_def)

text \<open>
  The \<open>else\<close> branch of the loop of \<open>get_backend_dcb_from_pool\<close>: the connection could
  not be reused and is closed. \<open>before_close\<close> is the world in which \<open>DCB::close\<close> is
  called: \<open>m_evicting\<close> has been set and a polling DCB has had its events disabled and
  has been shut down. \<open>DCB::close\<close> asks \<open>can_be_destroyed\<close>, which reads the flag; the
  flag is cleared after the close.
\<close>

definition before_close :: "dcb_ptr \<Rightarrow> world \<Rightarrow> world" where
  "before_close pDcb wd =
     (let wd1 = upd_self (\<lambda>w. w\<lparr>m_evicting := True\<rparr>) wd
      in if state (dcbs wd1 pDcb) = POLLING
         then DCB_shutdown pDcb (disable_events pDcb wd1) else wd1)"









text \<open>\<open>RoutingWorker::post_run\<close>.\<close>

definition post_run ::
  "MXS_MODULE list \<Rightarrow> int \<Rightarrow> world \<Rightarrow> this_thread \<Rightarrow> world \<times> this_thread \<times> call list" where
  "post_run mods now wd th =
     (evict_dcbs_all now Evict_ALL wd,
      th\<lparr>current_worker_id := WORKER_ABSENT_ID\<rparr>,
      modules_thread_finish mods @ [QC_THREAD_END])"

text \<open>A worker as the constructor leaves it, for the examples.\<close>

definition ex_worker :: "int \<Rightarrow> routing_worker" where
  "ex_worker i =
     \<lparr>m_id = i, m_should_shutdown = False, m_evicting = False, m_dcbs = [], m_zombies = [],
      m_persistent_entries_by_server = [], m_next_timeout_check = 0\<rparr>"

text \<open>
  The unit after \<open>init\<close> with room for four workers and two configured, a thread that
  has entered the loop of the second worker, and a process with nothing registered.
\<close>

definition ex_unit :: this_unit where
  "ex_unit =
     \<lparr>initialized = True, nWorkers = 2,
      ppWorkers = [Some (ex_worker 0), Some (ex_worker 1), None, None],
      next_worker_id = 2, epoll_listener_fd = 5, id_main_worker = 0, id_min_worker = 0,
      id_max_worker = 1, running = False\<rparr>"

definition ex_thread :: this_thread where
  "ex_thread = fst (snd (pre_run [] True (ex_worker 1) this_thread_initial))"

text \<open>A world with one idle worker and stores filled with blank objects.\<close>

definition blank_dcb :: DCB where
  "blank_dcb =
     \<lparr>role = BACKEND, state = POLLING, session = None, server = 0, last_read = 0,
      last_write = 0, writeq_len = 0, hanged_up = False, handler = PROTOCOL,
      established = True, reuse_connection = True, triggered_hangups = 0, is_shutdown = False,
      disabled_state = NOPOLLING\<rparr>"

definition blank_session :: MXS_SESSION where
  "blank_session =
     \<lparr>close_reason = SESSION_CLOSE_NONE,
      service = \<lparr>conn_idle_timeout = 0, net_write_timeout = 0\<rparr>, valid_for_pool = True\<rparr>"

definition blank_server :: Server where
  "blank_server =
     \<lparr>persistent_conns_enabled = True, is_running = True, status_running = True,
      persistpoolmax = 2, persistmaxtime = 60, n_persistent = 0, n_from_pool = 0,
      n_current = 0, persistmax = 0\<rparr>"

definition blank_world :: world where
  "blank_world =
     \<lparr>self = ex_worker 1, dcbs = (\<lambda>p. blank_dcb), sessions = (\<lambda>p. blank_session),
      servers = (\<lambda>p. blank_server)\<rparr>"

definition ex_process :: process where
  "ex_process = \<lparr>the_unit = ex_unit, poll_data = (\<lambda>p. \<lparr>owner = None\<rparr>), epoll_listener = Map.empty\<rparr>"

text \<open>
  What \<open>init\<close> establishes when it succeeds: the workers sit at the indices
  \<open>0 \<dots> nWorkers - 1\<close>, each at the index that is its id, and the first is the main
  worker. \<open>loop_inv\<close> is the invariant of the loop of \<open>init\<close>.
\<close>

definition wf_unit :: "this_unit \<Rightarrow> bool" where
  "wf_unit u \<longleftrightarrow>
     initialized u \<and> next_worker_id u = max 0 (nWorkers u)
     \<and> nat (nWorkers u) \<le> length (ppWorkers u)
     \<and> (\<forall>j < nat (nWorkers u). \<exists>w. ppWorkers u ! j = Some w \<and> m_id w = int j)
     \<and> (\<forall>j. nat (nWorkers u) \<le> j \<and> j < length (ppWorkers u) \<longrightarrow> ppWorkers u ! j = None)
     \<and> (0 < nWorkers u \<longrightarrow> id_main_worker u = 0 \<and> id_min_worker u = 0 \<and> id_max_worker u = nWorkers u - 1)"

definition loop_inv :: "int \<Rightarrow> routing_worker option list \<Rightarrow> int \<Rightarrow> int \<Rightarrow> int \<Rightarrow> this_unit \<Rightarrow> bool" where
  "loop_inv i pp a b c u \<longleftrightarrow>
     0 \<le> i \<and> next_worker_id u = i \<and> nat i \<le> length pp
     \<and> (\<forall>j < nat i. \<exists>w. pp ! j = Some w \<and> m_id w = int j)
     \<and> (\<forall>j. nat i \<le> j \<and> j < length pp \<longrightarrow> pp ! j = None)
     \<and> (if i = 0 then a = WORKER_ABSENT_ID \<and> b = INT_MAX \<and> c = INT_MIN
         else a = 0 \<and> b = 0 \<and> c = i - 1)"

text \<open>
  The values that the thread-local \<open>this_thread\<close> of a thread can take: it starts
  absent and is written by \<open>pre_run\<close> and \<open>post_run\<close> of a worker of the unit only
  (a worker in whatever state, with the id it was created with).
\<close>

inductive_set thread_states :: "this_unit \<Rightarrow> this_thread set" for u :: this_unit where
  start: "this_thread_initial \<in> thread_states u"
| entered: "th \<in> thread_states u \<Longrightarrow> Some w0 \<in> set (ppWorkers u) \<Longrightarrow> m_id w = m_id w0 \<Longrightarrow>
            fst (snd (pre_run mods qc_ok w th)) \<in> thread_states u"
| left: "th \<in> thread_states u \<Longrightarrow> fst (snd (post_run mods now wd th)) \<in> thread_states u"

subsection \<open>Notions used in the statements, and example states\<close>

text \<open>
  Two workers of which only the first accepts what is submitted to it.
\<close>

definition ex_methods :: Worker_methods where
  "ex_methods =
     \<lparr>execute_task = (\<lambda>w t s m. m_id w = 0), execute_func = (\<lambda>w f s m. m_id w = 0),
      post_disposable = (\<lambda>w t m. m_id w = 0), post_message = (\<lambda>w i a b. m_id w = 0)\<rparr>"

text \<open>
  \<open>hangups_due\<close> is the number of hangup events that the scan synthesises on a DCB,
  \<open>time_out\<close> what the scan does to a DCB and its session, and \<open>hang\<close> one
  \<^verbatim>\<open>close_reason = SESSION_CLOSE_TIMEOUT; trigger_hangup_event()\<close>. The example has two
  client DCBs: the first has been idle for 6.1 s with an idle timeout of 5 s, the
  second has a write queue and both timeouts disabled.
\<close>

definition hangups_due :: "int \<Rightarrow> world \<Rightarrow> dcb_ptr \<Rightarrow> nat" where
  "hangups_due now wd p =
     (case session (dcbs wd p) of
        None \<Rightarrow> 0
      | Some ses \<Rightarrow>
          (if examined (dcbs wd p)
           then (if idle_too_long now (service (sessions wd ses)) (dcbs wd p) then 1 else 0)
                + (if write_too_long now (service (sessions wd ses)) (dcbs wd p) then 1 else 0)
           else 0))"

definition time_out :: "int \<Rightarrow> dcb_ptr \<Rightarrow> world \<Rightarrow> world" where
  "time_out now p wd =
     (if timed_out now wd p
      then upd_dcb p (\<lambda>d. d\<lparr>triggered_hangups := triggered_hangups d + hangups_due now wd p\<rparr>)
             (upd_session (the (session (dcbs wd p))) (\<lambda>s. s\<lparr>close_reason := SESSION_CLOSE_TIMEOUT\<rparr>) wd)
      else wd)"

definition hang :: "session_ptr \<Rightarrow> dcb_ptr \<Rightarrow> world \<Rightarrow> world" where
  "hang ses p wd =
     trigger_hangup_event p (upd_session ses (\<lambda>s. s\<lparr>close_reason := SESSION_CLOSE_TIMEOUT\<rparr>) wd)"

definition ex_clients :: world where
  "ex_clients =
     blank_world
       \<lparr>self := (ex_worker 1)\<lparr>m_dcbs := [1, 2]\<rparr>,
        dcbs := (\<lambda>p. blank_dcb)
                  (1 := blank_dcb\<lparr>role := CLIENT, session := Some 1\<rparr>,
                   2 := blank_dcb\<lparr>role := CLIENT, session := Some 2, writeq_len := 3\<rparr>),
        sessions := (\<lambda>p. blank_session)
                  (1 := blank_session\<lparr>service := \<lparr>conn_idle_timeout = 5, net_write_timeout = 0\<rparr>\<rparr>)\<rparr>"

text \<open>
  The drain returns when the cascades of closes end: \<open>cascades_end\<close> asks for a weight
  on the DCBs under which the DCBs enqueued by a destruction weigh less, together, than
  the DCB destroyed (a client DCB with \<open>n\<close> backend DCBs that enqueue nothing has
  weight \<open>n + 1\<close>). \<open>hooks_enqueue_nothing\<close> says of the tick functions that they leave
  an empty zombie queue empty.
\<close>

definition cascades_end :: "(dcb_ptr \<Rightarrow> dcb_ptr list) \<Rightarrow> (dcb_ptr \<Rightarrow> nat) \<Rightarrow> bool" where
  "cascades_end closes weight \<longleftrightarrow> (\<forall>d. sum_list (map weight (closes d)) < weight d)"

definition hooks_enqueue_nothing :: "(world \<Rightarrow> world) list \<Rightarrow> bool" where
  "hooks_enqueue_nothing tick_funcs \<longleftrightarrow>
     (\<forall>func \<in> set tick_funcs. \<forall>wd. m_zombies (self wd) = [] \<longrightarrow> m_zombies (self (func wd)) = [])"

text \<open>
  The example: the zombie queue holds a backend DCB and a client DCB whose destruction
  enqueues two more backend DCBs.
\<close>

definition ex_closes :: "dcb_ptr \<Rightarrow> dcb_ptr list" where
  "ex_closes d = (if d = 1 then [2, 3] else [])"

definition ex_weight :: "dcb_ptr \<Rightarrow> nat" where
  "ex_weight d = (if d = 1 then 3 else 1)"

definition ex_zombies :: world where
  "ex_zombies = blank_world\<lparr>self := (ex_worker 1)\<lparr>m_zombies := [4, 1], m_next_timeout_check := 5\<rparr>\<rparr>"

text \<open>
  \<open>scan\<close> is the loop of \<open>evict_dcbs\<close> on the deque of a server as the world has it:
  the entries kept, the DCBs to be evicted, the count and the new \<open>n_persistent\<close>.
\<close>

definition scan :: "int \<Rightarrow> server_ptr \<Rightarrow> Evict \<Rightarrow> world \<Rightarrow> PersistentEntry list \<times> dcb_ptr list \<times> int \<times> int" where
  "scan now pS evict wd =
     evict_loop (\<lambda>p. hanged_up (dcbs wd p))
       (\<not> status_running (servers wd pS) \<or> evict = Evict_ALL) now
       (persistmaxtime (servers wd pS)) (persistpoolmax (servers wd pS))
       (entries_of (self wd) pS) 0 (n_persistent (servers wd pS))"

text \<open>
  \<open>pooled_in\<close> is the number of entries pooled for a server over a list of workers. The
  example worlds: one live backend DCB; the same after its release into the pool at
  time 0; and that after an event on the pooled DCB.
\<close>

definition pooled_in :: "routing_worker list \<Rightarrow> server_ptr \<Rightarrow> nat" where
  "pooled_in ws pS = sum_list (map (\<lambda>w. length (entries_of w pS)) ws)"

definition ex_live :: world where
  "ex_live =
     blank_world
       \<lparr>self := (ex_worker 1)\<lparr>m_dcbs := [11]\<rparr>,
        dcbs := (\<lambda>p. blank_dcb)(11 := blank_dcb\<lparr>session := Some 5\<rparr>),
        servers := (\<lambda>p. blank_server)(0 := blank_server\<lparr>n_current := 1\<rparr>)\<rparr>"

definition ex_pooled :: world where
  "ex_pooled =
     blank_world
       \<lparr>self := (ex_worker 1)\<lparr>m_persistent_entries_by_server := [(0, [\<lparr>m_created = 0, m_pDcb = 11\<rparr>])]\<rparr>,
        dcbs := (\<lambda>p. blank_dcb)(11 := blank_dcb\<lparr>handler := POOL_HANDLER\<rparr>),
        servers := (\<lambda>p. blank_server)(0 := blank_server\<lparr>n_persistent := 1\<rparr>)\<rparr>"

definition ex_evicted :: world where
  "ex_evicted =
     blank_world
       \<lparr>self := (ex_worker 1)\<lparr>m_dcbs := [11], m_zombies := [11],
                               m_persistent_entries_by_server := [(0, [])]\<rparr>,
        dcbs := (\<lambda>p. blank_dcb)(11 := blank_dcb\<lparr>handler := POOL_HANDLER, state := NOPOLLING, is_shutdown := True\<rparr>),
        servers := (\<lambda>p. blank_server)(0 := blank_server\<lparr>n_persistent := 1\<rparr>)\<rparr>"

text \<open>
  Three more worlds, all for a server with \<open>persistpoolmax = 1\<close>: two live DCBs and an
  empty pool; the same after the first DCB has been released into the pool; and a pool
  of two entries, the first of them older than \<open>persistmaxtime\<close> at time 100.
\<close>

definition ex_capped :: world where
  "ex_capped =
     blank_world
       \<lparr>self := (ex_worker 1)\<lparr>m_dcbs := [11],
                               m_persistent_entries_by_server := [(0, [\<lparr>m_created = 0, m_pDcb = 21\<rparr>])]\<rparr>,
        dcbs := (\<lambda>p. blank_dcb)(11 := blank_dcb\<lparr>session := Some 5\<rparr>,
                                  21 := blank_dcb\<lparr>handler := POOL_HANDLER\<rparr>),
        servers := (\<lambda>p. blank_server)
                     (0 := blank_server\<lparr>persistpoolmax := 1, n_persistent := 1, n_current := 1\<rparr>)\<rparr>"



text \<open>
  The world \<open>ex_capped\<close> with a maximum of \<open>2 ^ 32 + 1\<close>, which does not fit in an \<open>int\<close>.
\<close>

definition ex_wide :: world where
  "ex_wide = upd_server 0 (\<lambda>s. s\<lparr>persistpoolmax := 4294967297\<rparr>) ex_capped"

text \<open>
  A server with \<open>persistpoolmax = 2\<close> and four pooled connections, none of them expired
  or hung up.
\<close>

definition ex_oversize :: world where
  "ex_oversize =
     blank_world
       \<lparr>self := (ex_worker 1)\<lparr>m_persistent_entries_by_server :=
                                 [(0, [\<lparr>m_created = 10, m_pDcb = 21\<rparr>, \<lparr>m_created = 10, m_pDcb = 22\<rparr>,
                                       \<lparr>m_created = 10, m_pDcb = 23\<rparr>, \<lparr>m_created = 10, m_pDcb = 24\<rparr>])]\<rparr>,
        servers := (\<lambda>p. blank_server)(0 := blank_server\<lparr>n_persistent := 4\<rparr>)\<rparr>"

text \<open>
  \<open>popped\<close> is the world after the first four statements of the loop body of
  \<open>get_backend_dcb_from_pool\<close>: the front entry popped, the counter decremented, the
  protocol handler restored and the DCB linked to the session.
\<close>

definition popped :: "server_ptr \<Rightarrow> session_ptr \<Rightarrow> PersistentEntry \<Rightarrow> PersistentEntry list \<Rightarrow> world \<Rightarrow> world" where
  "popped pS ses entry rest wd =
     link_backend_dcb ses (m_pDcb entry)
       (set_handler (m_pDcb entry) PROTOCOL
          (upd_server pS (\<lambda>s. s\<lparr>n_persistent := n_persistent s - 1\<rparr>)
             (upd_self (set_entries pS rest) wd)))"

text \<open>
  A pool of two connections and a \<open>connect\<close> that always yields DCB 99. The first
  connection cannot be reused, and it stays in state POLLING when its events are
  disabled, so that it meets the conditions of the pool again when it is closed.
\<close>

definition ex_reuse :: world where
  "ex_reuse =
     blank_world
       \<lparr>self := (ex_worker 1)\<lparr>m_persistent_entries_by_server :=
                                 [(0, [\<lparr>m_created = 0, m_pDcb = 21\<rparr>, \<lparr>m_created = 0, m_pDcb = 22\<rparr>])]\<rparr>,
        dcbs := (\<lambda>p. blank_dcb)(21 := blank_dcb\<lparr>handler := POOL_HANDLER, reuse_connection := False,
                                                   disabled_state := POLLING\<rparr>,
                                  22 := blank_dcb\<lparr>handler := POOL_HANDLER\<rparr>),
        servers := (\<lambda>p. blank_server)(0 := blank_server\<lparr>n_persistent := 2\<rparr>)\<rparr>"


section \<open>Verification\<close>

subsection \<open>Failure of the per-thread initialisation\<close>

lemma nth_Cons_shift:
  "Suc i \<le> j \<Longrightarrow> (m # ms) ! (j - i) = ms ! (j - Suc i)"
proof -
  assume "Suc i \<le> j"
  then have "j - i = Suc (j - Suc i)" by arith
  then show ?thesis by simp
qed

lemma finish_loop_upto:
  "i \<le> failed \<Longrightarrow> failed \<le> i + length ms \<Longrightarrow>
   finish_loop ms i failed = map THREAD_FINISH (filter (\<lambda>j. thread_finish (ms ! (j - i))) [i..<failed])"
proof (induction ms arbitrary: i)
  case Nil
  then show ?case by simp
next
  case (Cons m ms)
  show ?case
  proof (cases "i = failed")
    case True
    then show ?thesis by simp
  next
    case False
    with Cons.prems have lt: "i < failed" by simp
    have tl: "filter (\<lambda>j. thread_finish ((m # ms) ! (j - i))) [Suc i..<failed]
            = filter (\<lambda>j. thread_finish (ms ! (j - Suc i))) [Suc i..<failed]"
      by (rule filter_cong) (simp_all add: nth_Cons_shift)
    have "finish_loop ms (Suc i) failed
            = map THREAD_FINISH (filter (\<lambda>j. thread_finish (ms ! (j - Suc i))) [Suc i..<failed])"
      using Cons.prems lt by (intro Cons.IH) auto
    with False lt tl show ?thesis
      by (simp add: upt_conv_Cons)
  qed
qed

lemma init_loop_fails:
  "i \<le> k \<Longrightarrow> k < i + length ms \<Longrightarrow>
   \<exists>rc. thread_init (ms ! (k - i)) = Some rc \<and> rc \<noteq> 0 \<Longrightarrow>
   \<forall>j < k - i. thread_init (ms ! j) = None \<or> thread_init (ms ! j) = Some 0 \<Longrightarrow>
   init_loop ms i =
     (Some k, map THREAD_INIT (filter (\<lambda>j. thread_init (ms ! (j - i)) \<noteq> None) [i..<Suc k]))"
proof (induction ms arbitrary: i)
  case Nil
  then show ?case by simp
next
  case (Cons m ms)
  show ?case
  proof (cases "i = k")
    case True
    with Cons.prems show ?thesis by auto
  next
    case False
    with Cons.prems have lt: "i < k" by simp
    have hd: "thread_init m = None \<or> thread_init m = Some 0"
      using Cons.prems(4) lt by (auto dest: spec [of _ 0])
    have tl: "filter (\<lambda>j. thread_init ((m # ms) ! (j - i)) \<noteq> None) [Suc i..<Suc k]
            = filter (\<lambda>j. thread_init (ms ! (j - Suc i)) \<noteq> None) [Suc i..<Suc k]"
    proof (rule filter_cong)
      fix j assume "j \<in> set [Suc i..<Suc k]"
      then have "Suc i \<le> j" by auto
      then show "(thread_init ((m # ms) ! (j - i)) \<noteq> None) = (thread_init (ms ! (j - Suc i)) \<noteq> None)"
        by (simp only: nth_Cons_shift)
    qed simp
    have k': "(m # ms) ! (k - i) = ms ! (k - Suc i)"
      using lt by (simp add: nth_Cons_shift)
    have pre: "\<forall>j < k - Suc i. thread_init (ms ! j) = None \<or> thread_init (ms ! j) = Some 0"
    proof (intro allI impI)
      fix j assume "j < k - Suc i"
      then have "Suc j < k - i" by simp
      with Cons.prems(4) have "thread_init ((m # ms) ! Suc j) = None \<or> thread_init ((m # ms) ! Suc j) = Some 0"
        by blast
      then show "thread_init (ms ! j) = None \<or> thread_init (ms ! j) = Some 0" by simp
    qed
    have IH: "init_loop ms (Suc i) =
        (Some k, map THREAD_INIT (filter (\<lambda>j. thread_init (ms ! (j - Suc i)) \<noteq> None) [Suc i..<Suc k]))"
      using Cons.prems lt k' pre by (intro Cons.IH) auto
    have up: "[i..<Suc k] = i # [Suc i..<Suc k]"
      using lt by (simp add: upt_conv_Cons)
    from hd show ?thesis
    proof
      assume "thread_init m = None"
      then show ?thesis using IH tl unfolding up by simp
    next
      assume "thread_init m = Some 0"
      then show ?thesis using IH tl unfolding up by simp
    qed
  qed
qed

lemma ex_modules_fail: "init_fails_at ex_modules 2"
  by (simp add: init_fails_at_def ex_modules_def less_Suc_eq nth_Cons')

lemma ex_calls:
  "init_calls_upto ex_modules 2 = [THREAD_INIT 0, THREAD_INIT 1, THREAD_INIT 2]"
  "finish_calls_forward ex_modules 2 = [THREAD_FINISH 0, THREAD_FINISH 1]"
  by (simp_all add: init_calls_upto_def finish_calls_forward_def ex_modules_def upt_rec nth_Cons')

text \<open>
  C2, as amended. When the per-thread initialisation fails at the module in position
  \<open>k\<close> (every earlier module has no \<open>thread_init\<close> or one that returns 0),
  \<open>modules_thread_init\<close> calls \<open>thread_init\<close> on the modules up to and including \<open>k\<close>
  that have one, then \<open>thread_finish\<close> on exactly the modules before \<open>k\<close> that have one,
  in the order of the module iterator (first to last, not in reverse), and on no other
  module; \<open>pre_run\<close> returns false, which tells the caller not to run the loop, and
  leaves the thread-local worker id at \<open>WORKER_ABSENT_ID\<close>.
\<close>

theorem modules_thread_init_failure:
  assumes "init_fails_at mods k"
  shows "modules_thread_init mods = (False, init_calls_upto mods k @ finish_calls_forward mods k)
       \<and> fst (pre_run mods qc_ok w th) = False
       \<and> current_worker_id (fst (snd (pre_run mods qc_ok w th))) = WORKER_ABSENT_ID
       \<and> snd (snd (pre_run mods qc_ok w th)) = init_calls_upto mods k @ finish_calls_forward mods k"
proof -
  from assms have k: "k < length mods"
    and bad: "\<exists>rc. thread_init (mods ! k) = Some rc \<and> rc \<noteq> 0"
    and good: "\<forall>j < k. thread_init (mods ! j) = None \<or> thread_init (mods ! j) = Some 0"
    by (auto simp: init_fails_at_def)
  have il: "init_loop mods 0 = (Some k, init_calls_upto mods k)"
    using init_loop_fails [of 0 k mods] k bad good by (simp add: init_calls_upto_def)
  have fl: "finish_loop mods 0 k = finish_calls_forward mods k"
    using finish_loop_upto [of 0 k mods] k by (simp add: finish_calls_forward_def)
  have mti: "modules_thread_init mods = (False, init_calls_upto mods k @ finish_calls_forward mods k)"
    by (simp add: modules_thread_init_def il fl)
  then show ?thesis
    by (simp add: pre_run_def)
qed

theorem modules_thread_init_failure_witness:
  "init_fails_at ex_modules 2
   \<and> modules_thread_init ex_modules
       = (False, [THREAD_INIT 0, THREAD_INIT 1, THREAD_INIT 2, THREAD_FINISH 0, THREAD_FINISH 1])
   \<and> fst (pre_run ex_modules True (ex_worker 0) this_thread_initial) = False
   \<and> current_worker_id (fst (snd (pre_run ex_modules True (ex_worker 0) this_thread_initial)))
       = WORKER_ABSENT_ID"
  using modules_thread_init_failure [OF ex_modules_fail, of True "ex_worker 0" this_thread_initial]
  by (simp add: ex_calls ex_modules_fail)

text \<open>
  C2 as stated fails: with three modules that all have both callbacks, the third of
  which fails to initialise, \<open>thread_finish\<close> runs on the first and then on the second,
  which is not the reverse order.
\<close>

theorem modules_thread_init_reverse_counterexample:
  "init_fails_at ex_modules 2
   \<and> snd (modules_thread_init ex_modules)
       = [THREAD_INIT 0, THREAD_INIT 1, THREAD_INIT 2, THREAD_FINISH 0, THREAD_FINISH 1]
   \<and> snd (modules_thread_init ex_modules)
       \<noteq> init_calls_upto ex_modules 2 @ finish_calls_reversed ex_modules 2"
  by (simp add: ex_modules_fail ex_calls finish_calls_reversed_def)
     (simp add: modules_thread_init_def ex_modules_def)

subsection \<open>The current worker of a thread\<close>

lemma create_ok:
  "create oc u = (Some w, u') \<Longrightarrow>
     m_id w = next_worker_id u \<and> u' = u\<lparr>next_worker_id := next_worker_id u + 1\<rparr>"
  by (auto simp: create_def RoutingWorker_new_def next_worker_id'_def split: if_splits)

lemma loop_inv_step:
  assumes inv: "loop_inv i pp a b c u" and cr: "create oc u = (Some w, u')"
    and len: "nat i < length pp"
  shows "loop_inv (i + 1) (pp[nat i := Some w])
           (if a = WORKER_ABSENT_ID then m_id w else a)
           (if m_id w < b then m_id w else b)
           (if m_id w > c then m_id w else c) u'"
proof -
  from create_ok [OF cr] inv have mid: "m_id w = i" and nx: "next_worker_id u' = i + 1"
    by (auto simp: loop_inv_def)
  from inv have i0: "0 \<le> i" by (simp add: loop_inv_def)
  have n1: "nat (i + 1) = Suc (nat i)" using i0 by simp
  have filled: "\<forall>j < Suc (nat i). \<exists>w'. pp[nat i := Some w] ! j = Some w' \<and> m_id w' = int j"
  proof (intro allI impI)
    fix j assume "j < Suc (nat i)"
    then consider "j < nat i" | "j = nat i" by linarith
    then show "\<exists>w'. pp[nat i := Some w] ! j = Some w' \<and> m_id w' = int j"
    proof cases
      case 1
      with inv show ?thesis by (simp add: loop_inv_def)
    next
      case 2
      with len mid i0 show ?thesis by simp
    qed
  qed
  have empty: "\<forall>j. Suc (nat i) \<le> j \<and> j < length (pp[nat i := Some w]) \<longrightarrow> pp[nat i := Some w] ! j = None"
    using inv by (auto simp: loop_inv_def)
  have ids: "(if a = WORKER_ABSENT_ID then m_id w else a) = 0
           \<and> (if m_id w < b then m_id w else b) = 0
           \<and> (if m_id w > c then m_id w else c) = i"
    using inv mid i0 by (auto simp: loop_inv_def WORKER_ABSENT_ID_def INT_MAX_def INT_MIN_def split: if_splits)
  show ?thesis
    unfolding loop_inv_def n1 using i0 nx len filled empty ids by simp
qed

lemma init_workers_inv:
  "init_workers oc n i (pp, a, b, c) u = (Inr (pp', a', b', c'), u') \<Longrightarrow>
   loop_inv i pp a b c u \<Longrightarrow>
   loop_inv (max i n) pp' a' b' c' u' \<and> u' = u\<lparr>next_worker_id := max i n\<rparr>"
proof (induction "nat (n - i)" arbitrary: i pp a b c u)
  case 0
  then have "\<not> i < n" by simp
  with 0 show ?case by (simp add: init_workers.simps max_def loop_inv_def)
next
  case (Suc k)
  then have lt: "i < n" by linarith
  obtain r u1 where cr: "create (oc i) u = (r, u1)" by (cases "create (oc i) u")
  show ?case
  proof (cases r)
    case None
    with Suc.prems(1) lt cr show ?thesis by (simp add: init_workers.simps)
  next
    case (Some w)
    from Suc.prems(2) have i0: "0 \<le> i" by (simp add: loop_inv_def)
    show ?thesis
    proof (cases "nat i < length pp")
      case False
      with Suc.prems(1) lt cr Some i0 show ?thesis
        by (simp add: init_workers.simps [of oc n i] Let_def)
    next
      case True
      let ?a = "if a = WORKER_ABSENT_ID then m_id w else a"
      let ?b = "if m_id w < b then m_id w else b"
      let ?c = "if m_id w > c then m_id w else c"
      from Suc.prems(1) lt cr Some i0 True
      have rec: "init_workers oc n (i + 1) (pp[nat i := Some w], ?a, ?b, ?c) u1 = (Inr (pp', a', b', c'), u')"
        by (simp add: init_workers.simps [of oc n i] Let_def)
      have inv': "loop_inv (i + 1) (pp[nat i := Some w]) ?a ?b ?c u1"
        using loop_inv_step [OF Suc.prems(2) _ True] cr Some by simp
      have k: "k = nat (n - (i + 1))" using Suc.hyps(2) by linarith
      from Suc.hyps(1) [OF k rec inv']
      have res: "loop_inv (max (i + 1) n) pp' a' b' c' u'" "u' = u1\<lparr>next_worker_id := max (i + 1) n\<rparr>"
        by blast+
      have mx: "max (i + 1) n = max i n" using lt by simp
      from create_ok [of "oc i" u w u1] cr Some have "u1 = u\<lparr>next_worker_id := next_worker_id u + 1\<rparr>"
        by simp
      with res mx show ?thesis by simp
    qed
  qed
qed

lemma init_workers_unit:
  "init_workers oc n i loc u = (r, u') \<Longrightarrow> \<exists>k. u' = u\<lparr>next_worker_id := k\<rparr>"
proof (induction "nat (n - i)" arbitrary: i loc u)
  case 0
  obtain pp a b c where loc: "loc = (pp, a, b, c)" by (cases loc)
  from 0 have "\<not> i < n" by simp
  with 0 loc have "u' = u" by (simp add: init_workers.simps)
  then have "u' = u\<lparr>next_worker_id := next_worker_id u\<rparr>" by simp
  then show ?case ..
next
  case (Suc k)
  obtain pp a b c where loc: "loc = (pp, a, b, c)" by (cases loc)
  from Suc have lt: "i < n" by linarith
  obtain w u1 where cr: "create (oc i) u = (w, u1)" by (cases "create (oc i) u")
  have u1: "\<exists>k. u1 = u\<lparr>next_worker_id := k\<rparr>"
  proof (cases "oc i = NEW_FAILED")
    case True
    with cr have "u1 = u\<lparr>next_worker_id := next_worker_id u\<rparr>" by (simp add: create_def)
    then show ?thesis ..
  next
    case False
    with cr have "u1 = u\<lparr>next_worker_id := next_worker_id u + 1\<rparr>"
      by (auto simp: create_def RoutingWorker_new_def next_worker_id'_def split: if_splits)
    then show ?thesis ..
  qed
  show ?case
  proof (cases "\<exists>pw. w = Some pw \<and> 0 \<le> i \<and> nat i < length pp")
    case False
    with Suc.prems lt cr loc have "u' = u1"
      by (cases w) (auto simp: init_workers.simps [of oc n i] Let_def split: if_splits)
    with u1 show ?thesis by simp
  next
    case True
    then obtain pw where w: "w = Some pw" and rng: "0 \<le> i" "nat i < length pp" by blast
    from Suc.prems lt cr loc w rng
    obtain loc' where rec: "init_workers oc n (i + 1) loc' u1 = (r, u')"
      by (simp add: init_workers.simps [of oc n i] Let_def)
    have k: "k = nat (n - (i + 1))" using Suc.hyps(2) by linarith
    from Suc.hyps(1) [OF k rec] obtain k' where "u' = u1\<lparr>next_worker_id := k'\<rparr>" ..
    with u1 show ?thesis by auto
  qed
qed

lemma init_wf:
  assumes "init mx epoll_fd n array_ok oc this_unit_initial = Some (True, u)"
  shows "wf_unit u"
proof -
  let ?u1 = "this_unit_initial\<lparr>epoll_listener_fd := epoll_fd\<rparr>"
  have ninit: "\<not> initialized ?u1" by (simp add: this_unit_initial_def)
  from assms ninit have ok: "epoll_fd \<noteq> -1" "array_ok"
    by (auto simp: init_def Let_def split: if_splits)
  obtain r u2 where iw: "init_workers oc n 0 (replicate mx None, WORKER_ABSENT_ID, INT_MAX, INT_MIN) ?u1 = (r, u2)"
    by (cases "init_workers oc n 0 (replicate mx None, WORKER_ABSENT_ID, INT_MAX, INT_MIN) ?u1")
  have inv0: "loop_inv 0 (replicate mx None) WORKER_ABSENT_ID INT_MAX INT_MIN ?u1"
    by (simp add: loop_inv_def this_unit_initial_def)
  show ?thesis
  proof (cases r)
    case (Inl e)
    from init_workers_unit [OF iw] have u2: "\<not> initialized u2"
      by (auto simp: this_unit_initial_def)
    with assms ok iw Inl show ?thesis
      by (cases e) (auto simp: init_def Let_def)
  next
    case (Inr t)
    obtain pp a b c where t: "t = (pp, a, b, c)" by (cases t)
    from init_workers_inv [OF iw [unfolded Inr t] inv0]
    have inv: "loop_inv (max 0 n) pp a b c u2" and u2: "u2 = ?u1\<lparr>next_worker_id := max 0 n\<rparr>"
      by blast+
    from assms ok iw Inr t have u: "u = u2\<lparr>ppWorkers := pp, nWorkers := n,
                                id_main_worker := a, id_min_worker := b,
                                id_max_worker := c, initialized := True\<rparr>"
      by (simp add: init_def Let_def)
    from inv have "loop_inv (max 0 n) pp a b c u2" .
    then show ?thesis
      unfolding wf_unit_def u loop_inv_def
      by (cases "0 < n") (auto simp: max_def)
  qed
qed

lemma pre_run_id:
  "current_worker_id (fst (snd (pre_run mods qc_ok w th)))
     = (if fst (pre_run mods qc_ok w th) then m_id w else WORKER_ABSENT_ID)"
  by (simp add: pre_run_def Let_def split: prod.splits)

lemma post_run_id:
  "current_worker_id (fst (snd (post_run mods now wd th))) = WORKER_ABSENT_ID"
  by (simp add: post_run_def)

lemma thread_states_id:
  "th \<in> thread_states u \<Longrightarrow>
     current_worker_id th = WORKER_ABSENT_ID
     \<or> (\<exists>w. Some w \<in> set (ppWorkers u) \<and> m_id w = current_worker_id th)"
proof (induction rule: thread_states.induct)
  case start
  then show ?case by (simp add: this_thread_initial_def)
next
  case (entered th w0 w mods qc_ok)
  then show ?case by (auto simp: pre_run_id)
next
  case (left th mods now wd)
  then show ?case by (simp add: post_run_id)
qed

lemma wf_unit_get:
  assumes wf: "wf_unit u" and w: "Some w \<in> set (ppWorkers u)"
  shows "\<exists>w'. get MAIN u (m_id w) = Inr (Some w')"
proof -
  from w obtain j where j: "j < length (ppWorkers u)" "ppWorkers u ! j = Some w"
    by (auto simp: in_set_conv_nth)
  with wf have jn: "j < nat (nWorkers u)"
    by (auto simp: wf_unit_def) (metis not_le_imp_less option.distinct(1))
  with wf j have mid: "m_id w = int j" by (auto simp: wf_unit_def)
  from jn have pos: "0 < nWorkers u" by simp
  show ?thesis
  proof (cases "m_id w = MAIN")
    case True
    from pos have z: "0 < nat (nWorkers u)" by simp
    from wf have "\<forall>j < nat (nWorkers u). \<exists>w. ppWorkers u ! j = Some w \<and> m_id w = int j"
      by (simp add: wf_unit_def)
    with z have w0: "\<exists>w0. ppWorkers u ! 0 = Some w0" by blast
    from wf pos z have "id_main_worker u = 0" "0 < length (ppWorkers u)"
      by (auto simp: wf_unit_def)
    note this(1) w0 this(2)
    with True show ?thesis by (auto simp: get_def)
  next
    case False
    with mid j show ?thesis by (simp add: get_def)
  qed
qed

lemma ex_unit_init:
  "init 4 5 2 True (\<lambda>i. CREATE_OK) this_unit_initial = Some (True, ex_unit)"
  by (simp add: init_def init_workers.simps create_def RoutingWorker_new_def next_worker_id'_def
      this_unit_initial_def Let_def WORKER_ABSENT_ID_def INT_MAX_def INT_MIN_def numeral_eq_Suc
      ex_unit_def ex_worker_def)

lemma ex_thread_state: "ex_thread \<in> thread_states ex_unit"
  unfolding ex_thread_def
  by (rule thread_states.entered [OF thread_states.start, of "ex_worker 1"])
     (simp_all add: ex_unit_def)

lemma ex_thread_id: "current_worker_id ex_thread = 1"
  by (simp add: ex_thread_def pre_run_def modules_thread_init_def ex_worker_def)

text \<open>
  C10. Let the unit be initialised by a successful \<open>init\<close>, and let the thread-local
  of a thread be in any state that \<open>pre_run\<close> and \<open>post_run\<close> of the workers of the unit
  can leave it in. \<open>get_current_id\<close> returns the thread-local id. When the id is unset,
  \<open>get_current\<close> returns NULL and \<open>get_current_id\<close> returns \<open>-1\<close>; \<open>get_current\<close> returns
  a worker exactly when the id is set. In particular it returns NULL after a \<open>pre_run\<close>
  that failed and after \<open>post_run\<close>.
\<close>

theorem get_current_iff_id_set:
  assumes "init mx epoll_fd n array_ok oc this_unit_initial = Some (True, u)"
    and "th \<in> thread_states u"
  shows "get_current_id th = current_worker_id th
       \<and> (current_worker_id th = WORKER_ABSENT_ID
            \<longrightarrow> get_current MAIN u th = Inr None \<and> get_current_id th = -1)
       \<and> ((\<exists>w. get_current MAIN u th = Inr (Some w)) \<longleftrightarrow> current_worker_id th \<noteq> WORKER_ABSENT_ID)
       \<and> (\<not> fst (pre_run mods qc_ok w th)
            \<longrightarrow> get_current MAIN u (fst (snd (pre_run mods qc_ok w th))) = Inr None)
       \<and> get_current MAIN u (fst (snd (post_run mods now wd th))) = Inr None"
proof -
  from assms(1) have wf: "wf_unit u" by (rule init_wf)
  have unset: "get_current MAIN u t = Inr None" if "current_worker_id t = WORKER_ABSENT_ID" for t
    using that by (simp add: get_current_def get_current_id_def)
  have set: "\<exists>w. get_current MAIN u th = Inr (Some w)" if "current_worker_id th \<noteq> WORKER_ABSENT_ID"
  proof -
    from thread_states_id [OF assms(2)] that
    obtain w' where "Some w' \<in> set (ppWorkers u)" "m_id w' = current_worker_id th" by blast
    with wf_unit_get [OF wf, of w' MAIN] that show ?thesis
      by (simp add: get_current_def get_current_id_def)
  qed
  have iff: "(\<exists>w. get_current MAIN u th = Inr (Some w)) \<longleftrightarrow> current_worker_id th \<noteq> WORKER_ABSENT_ID"
    using set unset by auto
  show ?thesis
    using iff unset
    by (simp add: get_current_id_def pre_run_id post_run_id WORKER_ABSENT_ID_def)
qed

theorem get_current_iff_id_set_witness:
  "init 4 5 2 True (\<lambda>i. CREATE_OK) this_unit_initial = Some (True, ex_unit)
   \<and> ex_thread \<in> thread_states ex_unit
   \<and> current_worker_id ex_thread \<noteq> WORKER_ABSENT_ID
   \<and> (\<exists>w. get_current (-1) ex_unit ex_thread = Inr (Some w))
   \<and> get_current (-1) ex_unit (fst (snd (post_run [] 0 blank_world ex_thread))) = Inr None"
  using get_current_iff_id_set [OF ex_unit_init ex_thread_state,
          where MAIN = "-1" and mods = "[]" and now = 0 and wd = blank_world]
  by (simp add: ex_unit_init ex_thread_state ex_thread_id WORKER_ABSENT_ID_def)

subsection \<open>Descriptors on the shared epoll instance\<close>

text \<open>
  C9. Whenever \<open>add_shared_fd\<close> returns, the poll data is owned by the worker that
  \<open>get(MAIN)\<close> yields, the one in the slot \<open>id_main_worker\<close>, whether or not the
  registration succeeded; the mask handed to
  \<open>epoll_ctl\<close> is the requested mask with \<open>EPOLLET\<close> cleared, so bit 31 is never set in
  it; and the registration is that of \<open>epoll_ctl\<close> on the interest list as it was, made
  after the owner was assigned.
\<close>

theorem add_shared_fd_level_triggered:
  assumes "add_shared_fd MAIN accepts fd evs pData st = Inr (rv, st')"
  shows "Inr (owner (poll_data st' pData)) = get MAIN (the_unit st) MAIN
       \<and> owner (poll_data st' pData)
           = ppWorkers (the_unit st) ! nat (id_main_worker (the_unit st))
       \<and> (rv \<longleftrightarrow> accepts \<and> fd \<notin> dom (epoll_listener st))
       \<and> (rv \<longrightarrow> epoll_listener st'
                   = (epoll_listener st)(fd \<mapsto> \<lparr>events = evs AND NOT EPOLLET, data_ptr = pData\<rparr>))
       \<and> (\<not> rv \<longrightarrow> epoll_listener st' = epoll_listener st)
       \<and> \<not> bit (evs AND NOT EPOLLET) 31
       \<and> (evs AND NOT EPOLLET) AND EPOLLET = 0
       \<and> (rv, epoll_listener st')
           = (let r = epoll_ctl_ADD accepts (epoll_listener st) fd
                        \<lparr>events = evs AND NOT EPOLLET, data_ptr = pData\<rparr>
              in (fst r = 0, snd r))"
proof -
  have bit31: "\<not> bit (evs AND NOT EPOLLET) 31"
    by (simp add: EPOLLET_def bit_and_iff bit_not_iff bit_push_bit_iff)
  have zero: "(evs AND NOT EPOLLET) AND EPOLLET = 0"
    by (simp add: and.assoc)
  from assms obtain main where g: "get MAIN (the_unit st) MAIN = Inr main"
    by (auto simp: add_shared_fd_def Let_def split: sum.splits)
  from g have slot: "main = ppWorkers (the_unit st) ! nat (id_main_worker (the_unit st))"
    by (auto simp: get_def Let_def split: if_splits)
  from assms g have own: "owner (poll_data st' pData) = main"
    by (auto simp: add_shared_fd_def epoll_ctl_ADD_def Let_def split: if_splits)
  from assms g show ?thesis
    using bit31 zero own slot
    by (auto simp: add_shared_fd_def epoll_ctl_ADD_def Let_def split: if_splits)
qed

lemma ex_add:
  "add_shared_fd (-1) True 7 (EPOLLET OR 1) 3 ex_process
     = Inr (True, ex_process\<lparr>poll_data := (poll_data ex_process)(3 := \<lparr>owner = Some (ex_worker 0)\<rparr>),
                              epoll_listener := [7 \<mapsto> \<lparr>events = 1, data_ptr = 3\<rparr>]\<rparr>)"
  by (simp add: add_shared_fd_def get_def ex_process_def ex_unit_def epoll_ctl_ADD_def EPOLLET_def Let_def)

theorem add_shared_fd_level_triggered_witness:
  "add_shared_fd (-1) True 7 (EPOLLET OR 1) 3 ex_process
     = Inr (True, ex_process\<lparr>poll_data := (poll_data ex_process)(3 := \<lparr>owner = Some (ex_worker 0)\<rparr>),
                              epoll_listener := [7 \<mapsto> \<lparr>events = 1, data_ptr = 3\<rparr>]\<rparr>)
   \<and> get (-1) (the_unit ex_process) (-1) = Inr (Some (ex_worker 0))
   \<and> (EPOLLET OR 1) AND NOT EPOLLET = (1 :: 32 word)"
proof -
  from add_shared_fd_level_triggered [OF ex_add]
  have "Inr (owner (poll_data (ex_process\<lparr>poll_data := (poll_data ex_process)(3 := \<lparr>owner = Some (ex_worker 0)\<rparr>),
                              epoll_listener := [7 \<mapsto> \<lparr>events = 1, data_ptr = 3\<rparr>]\<rparr>) 3))
          = get (-1) (the_unit ex_process) (-1)"
    by (rule conjunct1)
  then have "get (-1) (the_unit ex_process) (-1) = Inr (Some (ex_worker 0))"
    by simp
  moreover have "(EPOLLET OR 1) AND NOT EPOLLET = (1 :: 32 word)"
    by (simp add: EPOLLET_def)
  ultimately show ?thesis
    using ex_add by blast
qed

subsection \<open>Dispatch over the workers\<close>

lemma submit_loop_count:
  "0 \<le> i \<Longrightarrow> nat bound \<le> length pp \<Longrightarrow>
   \<forall>j. nat i \<le> j \<and> j < nat bound \<longrightarrow> pp ! j \<noteq> None \<Longrightarrow>
   submit_loop submit pp bound i n
     = Inr (n + length (filter submit (map the (drop (nat i) (take (nat bound) pp)))))"
proof (induction "nat (bound - i)" arbitrary: i n)
  case 0
  then have "\<not> i < bound" by simp
  then have "nat bound \<le> nat i" by simp
  then have "drop (nat i) (take (nat bound) pp) = []" by simp
  with \<open>\<not> i < bound\<close> show ?case by (simp add: submit_loop.simps)
next
  case (Suc k)
  then have lt: "i < bound" by linarith
  with Suc.prems have rng: "nat i < nat bound" "nat i < length pp" by simp_all
  with Suc.prems obtain w where w: "pp ! nat i = Some w" by auto
  have k: "k = nat (bound - (i + 1))" using Suc.hyps(2) by linarith
  have n1: "nat (i + 1) = Suc (nat i)" using Suc.prems(1) by simp
  have rest: "\<forall>j. nat (i + 1) \<le> j \<and> j < nat bound \<longrightarrow> pp ! j \<noteq> None"
    using Suc.prems(3) n1 by auto
  have "nat i < length (take (nat bound) pp)"
    using rng Suc.prems(2) by simp
  from Cons_nth_drop_Suc [OF this, symmetric]
  have "drop (nat i) (take (nat bound) pp) = take (nat bound) pp ! nat i # drop (Suc (nat i)) (take (nat bound) pp)" .
  then have dr: "drop (nat i) (take (nat bound) pp) = Some w # drop (Suc (nat i)) (take (nat bound) pp)"
    using rng w by simp
  have "submit_loop submit pp bound i n
          = submit_loop submit pp bound (i + 1) (if submit w then Suc n else n)"
    using lt Suc.prems(1) rng w by (simp add: submit_loop.simps [of submit pp bound i])
  also have "\<dots> = Inr ((if submit w then Suc n else n)
                    + length (filter submit (map the (drop (nat (i + 1)) (take (nat bound) pp)))))"
    using Suc.prems rest by (intro Suc.hyps(1) [OF k]) auto
  finally show ?case by (simp add: dr n1)
qed

lemma shutdown_loop_nth:
  "0 \<le> i \<Longrightarrow> nat bound \<le> length pp \<Longrightarrow>
   \<forall>j. nat i \<le> j \<and> j < nat bound \<longrightarrow> pp ! j \<noteq> None \<Longrightarrow>
   \<exists>pp'. shutdown_loop pp bound i = Inr pp' \<and> length pp' = length pp
     \<and> (\<forall>j < length pp. pp' ! j = (if nat i \<le> j \<and> j < nat bound then map_option shutdown (pp ! j) else pp ! j))"
proof (induction "nat (bound - i)" arbitrary: i pp)
  case 0
  then have nlt: "\<not> i < bound" by simp
  then have "nat bound \<le> nat i" by simp
  then have "\<not> (nat i \<le> j \<and> j < nat bound)" for j by linarith
  with nlt show ?case by (auto simp: shutdown_loop.simps)
next
  case (Suc k)
  then have lt: "i < bound" by linarith
  with Suc.prems have rng: "nat i < nat bound" "nat i < length pp" by simp_all
  with Suc.prems obtain w where w: "pp ! nat i = Some w" by auto
  have k: "k = nat (bound - (i + 1))" using Suc.hyps(2) by linarith
  have n1: "nat (i + 1) = Suc (nat i)" using Suc.prems(1) by simp
  let ?pp = "pp[nat i := Some (shutdown w)]"
  have rest: "\<forall>j. nat (i + 1) \<le> j \<and> j < nat bound \<longrightarrow> ?pp ! j \<noteq> None"
    using Suc.prems(3) n1 by auto
  have step: "shutdown_loop pp bound i = shutdown_loop ?pp bound (i + 1)"
    using lt Suc.prems(1) rng w by (simp add: shutdown_loop.simps [of pp bound i])
  from Suc.hyps(1) [OF k, of ?pp] Suc.prems rest
  obtain pp' where r: "shutdown_loop ?pp bound (i + 1) = Inr pp'" "length pp' = length pp"
    and nth: "\<forall>j < length pp. pp' ! j = (if nat (i + 1) \<le> j \<and> j < nat bound then map_option shutdown (?pp ! j) else ?pp ! j)"
    by auto
  have "\<forall>j < length pp. pp' ! j = (if nat i \<le> j \<and> j < nat bound then map_option shutdown (pp ! j) else pp ! j)"
  proof (intro allI impI)
    fix j assume j: "j < length pp"
    show "pp' ! j = (if nat i \<le> j \<and> j < nat bound then map_option shutdown (pp ! j) else pp ! j)"
    proof (cases "j = nat i")
      case True
      with nth j n1 rng w show ?thesis by simp
    next
      case False
      with nth j n1 show ?thesis by auto
    qed
  qed
  with step r show ?case by simp
qed

lemma shutdown_all_below:
  assumes "slots_filled u"
  shows "shutdown_all u = Inr (shut_down_below u)"
proof -
  from assms have len: "nat (next_worker_id u) \<le> length (ppWorkers u)"
    and full: "\<forall>j. nat 0 \<le> j \<and> j < nat (next_worker_id u) \<longrightarrow> ppWorkers u ! j \<noteq> None"
    by (auto simp: slots_filled_def workers_below_def in_set_conv_nth)
  from shutdown_loop_nth [OF _ len full]
  obtain pp' where r: "shutdown_loop (ppWorkers u) (next_worker_id u) 0 = Inr pp'"
    and l: "length pp' = length (ppWorkers u)"
    and nth: "\<forall>j < length (ppWorkers u). pp' ! j
               = (if j < nat (next_worker_id u) then map_option shutdown (ppWorkers u ! j) else ppWorkers u ! j)"
    by auto
  have "pp' = map (map_option shutdown) (workers_below u) @ drop (nat (next_worker_id u)) (ppWorkers u)"
  proof (rule nth_equalityI)
    show "length pp' = length (map (map_option shutdown) (workers_below u) @ drop (nat (next_worker_id u)) (ppWorkers u))"
      using l len by (simp add: workers_below_def)
  next
    fix j assume "j < length pp'"
    with l have j: "j < length (ppWorkers u)" by simp
    show "pp' ! j = (map (map_option shutdown) (workers_below u) @ drop (nat (next_worker_id u)) (ppWorkers u)) ! j"
      using nth j len by (auto simp: workers_below_def nth_append)
  qed
  with r show ?thesis by (simp add: shutdown_all_def shut_down_below_def)
qed

lemma submit_loop_below:
  assumes "slots_filled u"
  shows "submit_loop submit (ppWorkers u) (next_worker_id u) 0 0 = Inr (n_succeeded submit u)"
proof -
  from assms have len: "nat (next_worker_id u) \<le> length (ppWorkers u)"
    and full: "\<forall>j. nat 0 \<le> j \<and> j < nat (next_worker_id u) \<longrightarrow> ppWorkers u ! j \<noteq> None"
    by (auto simp: slots_filled_def workers_below_def in_set_conv_nth)
  from submit_loop_count [OF _ len full, of submit 0] show ?thesis
    by (simp add: n_succeeded_def workers_below_def)
qed

lemma submission_eq:
  "submission M (BROADCAST_TASK t s) = (\<lambda>w. execute_task M w t s EXECUTE_AUTO)"
  "submission M (BROADCAST_DISPOSABLE t) = (\<lambda>w. post_disposable M w t EXECUTE_AUTO)"
  "submission M (BROADCAST_FUNC f s m) = (\<lambda>w. execute_func M w f s m)"
  "submission M (EXECUTE_SERIALLY_TASK t s') = (\<lambda>w. execute_task M w t (Some s') EXECUTE_AUTO)"
  "submission M (EXECUTE_SERIALLY_FUNC f s') = (\<lambda>w. execute_func M w f (Some s') EXECUTE_AUTO)"
  "submission M (BROADCAST_MESSAGE i a b) = (\<lambda>w. post_message M w i a b)"
  by (simp_all add: fun_eq_iff)

lemma ex_unit_filled: "slots_filled ex_unit"
  by (simp add: slots_filled_def workers_below_def ex_unit_def numeral_eq_Suc)

lemma ex_unit_succeeded: "n_succeeded (submission ex_methods (BROADCAST_MESSAGE 1 0 0)) ex_unit = 1"
  by (simp add: n_succeeded_def workers_below_def ex_unit_def ex_methods_def ex_worker_def numeral_eq_Suc)

text \<open>
  C8, as amended. When the slots below \<open>next_worker_id\<close> hold workers, every dispatch
  primitive visits exactly the workers at the indices \<open>0 \<dots> next_worker_id - 1\<close>,
  whatever the configured count \<open>nWorkers\<close> is; the broadcasts of a task, of a closure
  and of a disposable task, \<open>execute_serially\<close> and \<open>broadcast_message\<close> return the
  number of those workers whose submission succeeded; \<open>shutdown_all\<close> returns nothing
  and sets the stop flag of each of those workers.
\<close>

theorem dispatch_over_next_worker_id:
  assumes "slots_filled u"
  shows "(p \<noteq> SHUTDOWN_ALL \<longrightarrow> dispatch M p u = Inr (COUNT (n_succeeded (submission M p) u), u))
       \<and> dispatch M SHUTDOWN_ALL u = Inr (VOID, shut_down_below u)
       \<and> map_sum id fst (dispatch M p (u\<lparr>nWorkers := N\<rparr>)) = map_sum id fst (dispatch M p u)"
proof -
  have sf: "slots_filled (u\<lparr>nWorkers := N\<rparr>)"
    using assms by (simp add: slots_filled_def workers_below_def)
  have same: "n_succeeded f (u\<lparr>nWorkers := N\<rparr>) = n_succeeded f u" for f
    by (simp add: n_succeeded_def workers_below_def)
  have cnt: "dispatch M p v = Inr (COUNT (n_succeeded (submission M p) v), v)"
    if "p \<noteq> SHUTDOWN_ALL" "slots_filled v" for v
    using that submit_loop_below [OF that(2)]
    by (cases p)
       (simp_all add: counted_def broadcast_task_def broadcast_disposable_def broadcast_func_def
          execute_serially_task_def execute_serially_func_def broadcast_message_def
          submission_eq del: submission.simps)
  have shut: "dispatch M SHUTDOWN_ALL v = Inr (VOID, shut_down_below v)" if "slots_filled v" for v
    using shutdown_all_below [OF that] by simp
  show ?thesis
  proof (cases "p = SHUTDOWN_ALL")
    case True
    with shut [OF assms] shut [OF sf] show ?thesis by simp
  next
    case False
    with cnt [OF False assms] cnt [OF False sf] shut [OF assms] same show ?thesis by simp
  qed
qed

theorem dispatch_over_next_worker_id_witness:
  "slots_filled ex_unit
   \<and> dispatch ex_methods (BROADCAST_MESSAGE 1 0 0) ex_unit = Inr (COUNT 1, ex_unit)
   \<and> dispatch ex_methods SHUTDOWN_ALL ex_unit = Inr (VOID, shut_down_below ex_unit)"
  using dispatch_over_next_worker_id [OF ex_unit_filled, of "BROADCAST_MESSAGE 1 0 0" ex_methods]
  by (simp add: ex_unit_filled ex_unit_succeeded del: dispatch.simps)

text \<open>
  C8 as stated fails for \<open>shutdown_all\<close>: it is a \<open>void\<close> function and hands no count
  back.
\<close>

theorem shutdown_all_returns_no_count_counterexample:
  "slots_filled ex_unit
   \<and> map_sum id fst (dispatch ex_methods SHUTDOWN_ALL ex_unit) = Inr VOID
   \<and> map_sum id fst (dispatch ex_methods SHUTDOWN_ALL ex_unit)
       \<noteq> Inr (COUNT (n_succeeded (submission ex_methods SHUTDOWN_ALL) ex_unit))"
  by (simp add: ex_unit_filled shutdown_all_below [OF ex_unit_filled])

subsection \<open>The timeout scan\<close>

lemma hangups_due_pos: "timed_out now wd p \<longleftrightarrow> 0 < hangups_due now wd p"
  by (auto simp: timed_out_def hangups_due_def split: option.splits)

lemma hang_reads [simp]:
  "writeq_len (dcbs (hang ses p wd) q) = writeq_len (dcbs wd q)"
  "last_write (dcbs (hang ses p wd) q) = last_write (dcbs wd q)"
  "service (sessions (hang ses p wd) s) = service (sessions wd s)"
  by (simp_all add: hang_def trigger_hangup_event_def)

lemma hang_once:
  "hang ses p wd
     = upd_dcb p (\<lambda>d. d\<lparr>triggered_hangups := triggered_hangups d + 1\<rparr>)
         (upd_session ses (\<lambda>s. s\<lparr>close_reason := SESSION_CLOSE_TIMEOUT\<rparr>) wd)"
  by (simp add: hang_def trigger_hangup_event_def)

lemma hang_twice:
  "hang ses p (hang ses p wd)
     = upd_dcb p (\<lambda>d. d\<lparr>triggered_hangups := triggered_hangups d + 2\<rparr>)
         (upd_session ses (\<lambda>s. s\<lparr>close_reason := SESSION_CLOSE_TIMEOUT\<rparr>) wd)"
  by (simp add: hang_def trigger_hangup_event_def upd_dcb_def upd_session_def)

lemma process_dcb_examined:
  assumes "examined (dcbs cur p)" "session (dcbs cur p) = Some ses"
  shows "process_dcb now p cur
           = Inr (let wd1 = (if idle_too_long now (service (sessions cur ses)) (dcbs cur p)
                              then hang ses p cur else cur)
                  in if write_too_long now (service (sessions cur ses)) (dcbs cur p)
                     then hang ses p wd1 else wd1)"
proof -
  have idle: "(conn_idle_timeout c \<noteq> 0 \<and> now - last_read d > int (conn_idle_timeout c) * 10)
                = idle_too_long now c d" for c d
    by (auto simp: idle_too_long_def mult.commute)
  have wr: "(net_write_timeout c \<noteq> 0 \<and> writeq_len d > 0 \<and> now - last_write d > int (net_write_timeout c) * 10)
                = write_too_long now c d" for c d
    by (auto simp: write_too_long_def mult.commute)
  show ?thesis
  proof (cases "idle_too_long now (service (sessions cur ses)) (dcbs cur p)")
    case True
    then have c: "conn_idle_timeout (service (sessions cur ses)) \<noteq> 0"
      "now - last_read (dcbs cur p) > int (conn_idle_timeout (service (sessions cur ses))) * 10"
      using idle by blast+
    show ?thesis
    proof (cases "write_too_long now (service (sessions cur ses)) (dcbs cur p)")
      case True
      then have "net_write_timeout (service (sessions cur ses)) \<noteq> 0" "writeq_len (dcbs cur p) > 0"
        "now - last_write (dcbs cur p) > int (net_write_timeout (service (sessions cur ses))) * 10"
        using wr by blast+
      with assms c True \<open>idle_too_long now (service (sessions cur ses)) (dcbs cur p)\<close>
      show ?thesis
        unfolding process_dcb_def examined_def hang_def [symmetric]
        by (simp add: Let_def)
    next
      case False
      then have "\<not> (net_write_timeout (service (sessions cur ses)) \<noteq> 0 \<and> writeq_len (dcbs cur p) > 0
        \<and> now - last_write (dcbs cur p) > int (net_write_timeout (service (sessions cur ses))) * 10)"
        using wr by blast
      with assms c False \<open>idle_too_long now (service (sessions cur ses)) (dcbs cur p)\<close>
      show ?thesis
        unfolding process_dcb_def examined_def hang_def [symmetric]
        by (auto simp: Let_def)
    qed
  next
    case False
    then have c: "\<not> (conn_idle_timeout (service (sessions cur ses)) \<noteq> 0
      \<and> now - last_read (dcbs cur p) > int (conn_idle_timeout (service (sessions cur ses))) * 10)"
      using idle by blast
    show ?thesis
    proof (cases "write_too_long now (service (sessions cur ses)) (dcbs cur p)")
      case True
      then have "net_write_timeout (service (sessions cur ses)) \<noteq> 0" "writeq_len (dcbs cur p) > 0"
        "now - last_write (dcbs cur p) > int (net_write_timeout (service (sessions cur ses))) * 10"
        using wr by blast+
      with assms c True False
      show ?thesis
        unfolding process_dcb_def examined_def hang_def [symmetric]
        by (auto simp: Let_def)
    next
      case False
      then have "\<not> (net_write_timeout (service (sessions cur ses)) \<noteq> 0 \<and> writeq_len (dcbs cur p) > 0
        \<and> now - last_write (dcbs cur p) > int (net_write_timeout (service (sessions cur ses))) * 10)"
        using wr by blast
      with assms c False \<open>\<not> idle_too_long now (service (sessions cur ses)) (dcbs cur p)\<close>
      show ?thesis
        unfolding process_dcb_def examined_def hang_def [symmetric]
        by (auto simp: Let_def)
    qed
  qed
qed

lemma process_dcb_result:
  assumes "process_dcb now p cur = Inr cur1"
  shows "cur1 = time_out now p cur"
proof (cases "examined (dcbs cur p)")
  case False
  then have ne: "\<not> (role (dcbs cur p) = CLIENT \<and> state (dcbs cur p) = POLLING)"
    by (simp add: examined_def)
  from assms have "cur1 = cur"
    unfolding process_dcb_def using ne by (simp only: if_False sum.inject)
  moreover from False have "\<not> timed_out now cur p" by (simp add: timed_out_def)
  ultimately show ?thesis by (simp add: time_out_def)
next
  case True
  with assms obtain ses where ses: "session (dcbs cur p) = Some ses"
    by (auto simp: process_dcb_def examined_def split: option.splits)
  from assms process_dcb_examined [OF True ses, of now]
  have "cur1 = (let wd1 = (if idle_too_long now (service (sessions cur ses)) (dcbs cur p)
                              then hang ses p cur else cur)
                  in if write_too_long now (service (sessions cur ses)) (dcbs cur p)
                     then hang ses p wd1 else wd1)"
    by simp
  then show ?thesis
    using True ses
    by (simp add: time_out_def timed_out_def hangups_due_def Let_def hang_once hang_twice)
qed

lemma time_out_reads:
  "self (time_out now p wd) = self wd"
  "servers (time_out now p wd) = servers wd"
  "dcbs (time_out now p wd) q
     = (if q = p then (dcbs wd p)\<lparr>triggered_hangups := triggered_hangups (dcbs wd p) + hangups_due now wd p\<rparr>
        else dcbs wd q)"
  "sessions (time_out now p wd) s
     = (if timed_out now wd p \<and> session (dcbs wd p) = Some s
        then (sessions wd s)\<lparr>close_reason := SESSION_CLOSE_TIMEOUT\<rparr> else sessions wd s)"
proof -
  have z: "\<not> timed_out now wd p \<Longrightarrow> hangups_due now wd p = 0"
    by (simp add: hangups_due_pos)
  have ses: "timed_out now wd p \<Longrightarrow> \<exists>s'. session (dcbs wd p) = Some s'"
    by (auto simp: timed_out_def split: option.splits)
  show "self (time_out now p wd) = self wd" "servers (time_out now p wd) = servers wd"
    by (simp_all add: time_out_def)
  show "dcbs (time_out now p wd) q
     = (if q = p then (dcbs wd p)\<lparr>triggered_hangups := triggered_hangups (dcbs wd p) + hangups_due now wd p\<rparr>
        else dcbs wd q)"
    using z by (simp add: time_out_def)
  show "sessions (time_out now p wd) s
     = (if timed_out now wd p \<and> session (dcbs wd p) = Some s
        then (sessions wd s)\<lparr>close_reason := SESSION_CLOSE_TIMEOUT\<rparr> else sessions wd s)"
    using ses by (auto simp: time_out_def)
qed

lemma timed_out_cong:
  assumes "dcbs cur q = dcbs wd q" "\<forall>s. service (sessions cur s) = service (sessions wd s)"
  shows "timed_out now cur q = timed_out now wd q" "hangups_due now cur q = hangups_due now wd q"
  using assms by (simp_all add: timed_out_def hangups_due_def split: option.splits)

lemma scan_dcbs_result:
  "distinct ps \<Longrightarrow> scan_dcbs now ps cur = Inr wd' \<Longrightarrow>
     self wd' = self cur \<and> servers wd' = servers cur
     \<and> (\<forall>q. dcbs wd' q
            = (if q \<in> set ps
               then (dcbs cur q)\<lparr>triggered_hangups := triggered_hangups (dcbs cur q) + hangups_due now cur q\<rparr>
               else dcbs cur q))
     \<and> (\<forall>s. sessions wd' s
            = (if \<exists>p \<in> set ps. timed_out now cur p \<and> session (dcbs cur p) = Some s
               then (sessions cur s)\<lparr>close_reason := SESSION_CLOSE_TIMEOUT\<rparr> else sessions cur s))"
proof (induction ps arbitrary: cur)
  case Nil
  then show ?case by simp
next
  case (Cons p ps)
  from Cons.prems(2) obtain cur1 where p1: "process_dcb now p cur = Inr cur1"
    and rest: "scan_dcbs now ps cur1 = Inr wd'"
    by (auto split: sum.splits)
  from process_dcb_result [OF p1] have cur1: "cur1 = time_out now p cur" .
  from Cons.prems(1) have d: "distinct ps" and pn: "p \<notin> set ps" by simp_all
  note IH = Cons.IH [OF d rest]
  have serv: "\<forall>s. service (sessions cur1 s) = service (sessions cur s)"
    by (simp add: cur1 time_out_reads)
  have same: "dcbs cur1 q = dcbs cur q" if "q \<noteq> p" for q
    using that by (simp add: cur1 time_out_reads)
  have to: "timed_out now cur1 q = timed_out now cur q" "hangups_due now cur1 q = hangups_due now cur q"
    if "q \<in> set ps" for q
  proof -
    from that pn have "q \<noteq> p" by auto
    from timed_out_cong [OF same [OF this] serv] show
      "timed_out now cur1 q = timed_out now cur q" "hangups_due now cur1 q = hangups_due now cur q"
      by simp_all
  qed
  have dc: "dcbs wd' q
            = (if q \<in> set (p # ps)
               then (dcbs cur q)\<lparr>triggered_hangups := triggered_hangups (dcbs cur q) + hangups_due now cur q\<rparr>
               else dcbs cur q)" for q
  proof (cases "q \<in> set ps")
    case True
    with pn have "q \<noteq> p" by auto
    with IH True to [OF True] same show ?thesis by simp
  next
    case False
    with IH have "dcbs wd' q = dcbs cur1 q" by simp
    with False show ?thesis by (simp add: cur1 time_out_reads)
  qed
  have ex: "(\<exists>q \<in> set ps. timed_out now cur1 q \<and> session (dcbs cur1 q) = Some s)
          = (\<exists>q \<in> set ps. timed_out now cur q \<and> session (dcbs cur q) = Some s)" for s
  proof (rule bex_cong [OF refl])
    fix q assume q: "q \<in> set ps"
    with pn have "q \<noteq> p" by auto
    with to [OF q] same show "(timed_out now cur1 q \<and> session (dcbs cur1 q) = Some s)
          = (timed_out now cur q \<and> session (dcbs cur q) = Some s)" by simp
  qed
  have se: "sessions wd' s
            = (if \<exists>q \<in> set (p # ps). timed_out now cur q \<and> session (dcbs cur q) = Some s
               then (sessions cur s)\<lparr>close_reason := SESSION_CLOSE_TIMEOUT\<rparr> else sessions cur s)" for s
  proof -
    from IH have "sessions wd' s
            = (if \<exists>q \<in> set ps. timed_out now cur1 q \<and> session (dcbs cur1 q) = Some s
               then (sessions cur1 s)\<lparr>close_reason := SESSION_CLOSE_TIMEOUT\<rparr> else sessions cur1 s)"
      by blast
    then show ?thesis
      unfolding ex by (auto simp: cur1 time_out_reads)
  qed
  from IH have "self wd' = self cur" "servers wd' = servers cur"
    by (simp_all add: cur1 time_out_reads)
  with dc se show ?case by blast
qed

lemma ex_clients_scan:
  "process_timeouts 61 ex_clients
     = Inr (hang 1 1 (upd_self (\<lambda>w. w\<lparr>m_next_timeout_check := 71\<rparr>) ex_clients))"
  by (simp add: process_timeouts_def process_dcb_def ex_clients_def blank_world_def ex_worker_def
      blank_dcb_def blank_session_def hang_def Let_def trigger_hangup_event_def)

text \<open>
  C5, as amended. The scan does nothing before the deadline. When it runs, at clock
  \<open>now\<close>, the next deadline is set to \<open>now + 10\<close>, 10 ticks after the clock, which is at
  least 10 ticks after the old deadline and more when the scan runs late. It
  synthesises a hangup on a DCB of the live set, and sets the close reason of its
  session to \<open>SESSION_CLOSE_TIMEOUT\<close>, exactly when the DCB has role CLIENT and state
  POLLING and either \<open>conn_idle_timeout > 0\<close> and \<open>now - last_read\<close> exceeds ten times
  the timeout, or \<open>net_write_timeout > 0\<close>, the write queue is not empty and
  \<open>now - last_write\<close> exceeds ten times the timeout. Every other DCB is left as it was,
  and so is every session without such a DCB. A timeout of 0 disables its check
  whatever the write queue holds. (The client DCBs are assumed to have a session, as
  the source does when it dereferences \<open>pDcb->session()\<close>.)
\<close>

theorem process_timeouts_scan:
  assumes "distinct (m_dcbs (self wd))" and "process_timeouts now wd = Inr wd'"
  shows "(now < m_next_timeout_check (self wd) \<longrightarrow> wd' = wd)
       \<and> (m_next_timeout_check (self wd) \<le> now \<longrightarrow>
            m_next_timeout_check (self wd') = now + 10
            \<and> m_next_timeout_check (self wd) + 10 \<le> m_next_timeout_check (self wd')
            \<and> (\<forall>p \<in> set (m_dcbs (self wd)).
                  (timed_out now wd p \<longleftrightarrow> triggered_hangups (dcbs wd p) < triggered_hangups (dcbs wd' p))
                  \<and> (timed_out now wd p \<longrightarrow>
                        (\<exists>ses. session (dcbs wd p) = Some ses
                           \<and> close_reason (sessions wd' ses) = SESSION_CLOSE_TIMEOUT))
                  \<and> (\<not> timed_out now wd p \<longrightarrow> dcbs wd' p = dcbs wd p))
            \<and> (\<forall>p. p \<notin> set (m_dcbs (self wd)) \<longrightarrow> dcbs wd' p = dcbs wd p)
            \<and> (\<forall>ses. sessions wd' ses \<noteq> sessions wd ses \<longrightarrow>
                  (\<exists>p \<in> set (m_dcbs (self wd)). timed_out now wd p \<and> session (dcbs wd p) = Some ses)))
       \<and> (conn_idle_timeout config = 0 \<longrightarrow> \<not> idle_too_long now config d)
       \<and> (net_write_timeout config = 0 \<longrightarrow> \<not> write_too_long now config d)"
proof (cases "m_next_timeout_check (self wd) \<le> now")
  case False
  with assms(2) show ?thesis
    by (simp add: process_timeouts_def idle_too_long_def write_too_long_def)
next
  case True
  let ?cur = "upd_self (\<lambda>w. w\<lparr>m_next_timeout_check := now + 10\<rparr>) wd"
  from assms(2) True have sc: "scan_dcbs now (m_dcbs (self wd)) ?cur = Inr wd'"
    by (simp add: process_timeouts_def)
  have to: "timed_out now ?cur q = timed_out now wd q" "hangups_due now ?cur q = hangups_due now wd q" for q
    by (rule timed_out_cong; simp)+
  note res = scan_dcbs_result [OF assms(1) sc]
  from res have self': "self wd' = self ?cur" by blast
  from res have dc0: "\<And>q. dcbs wd' q
            = (if q \<in> set (m_dcbs (self wd))
               then (dcbs ?cur q)\<lparr>triggered_hangups := triggered_hangups (dcbs ?cur q) + hangups_due now ?cur q\<rparr>
               else dcbs ?cur q)" by blast
  from res have se0: "\<And>s. sessions wd' s
            = (if \<exists>p \<in> set (m_dcbs (self wd)). timed_out now ?cur p \<and> session (dcbs ?cur p) = Some s
               then (sessions ?cur s)\<lparr>close_reason := SESSION_CLOSE_TIMEOUT\<rparr> else sessions ?cur s)" by blast
  have eq: "sessions ?cur = sessions wd" "dcbs ?cur = dcbs wd" by simp_all
  have dc: "\<And>q. dcbs wd' q
            = (if q \<in> set (m_dcbs (self wd))
               then (dcbs wd q)\<lparr>triggered_hangups := triggered_hangups (dcbs wd q) + hangups_due now wd q\<rparr>
               else dcbs wd q)"
    using dc0 unfolding to eq .
  have se: "\<And>s. sessions wd' s
            = (if \<exists>p \<in> set (m_dcbs (self wd)). timed_out now wd p \<and> session (dcbs wd p) = Some s
               then (sessions wd s)\<lparr>close_reason := SESSION_CLOSE_TIMEOUT\<rparr> else sessions wd s)"
    using se0 unfolding to eq .
  have dl: "m_next_timeout_check (self wd') = now + 10"
    by (simp add: self')
  have per: "(timed_out now wd p \<longleftrightarrow> triggered_hangups (dcbs wd p) < triggered_hangups (dcbs wd' p))
                  \<and> (timed_out now wd p \<longrightarrow>
                        (\<exists>ses. session (dcbs wd p) = Some ses
                           \<and> close_reason (sessions wd' ses) = SESSION_CLOSE_TIMEOUT))
                  \<and> (\<not> timed_out now wd p \<longrightarrow> dcbs wd' p = dcbs wd p)"
    if p: "p \<in> set (m_dcbs (self wd))" for p
  proof -
    have a: "timed_out now wd p \<longleftrightarrow> triggered_hangups (dcbs wd p) < triggered_hangups (dcbs wd' p)"
      using p by (simp add: dc hangups_due_pos)
    have b: "\<exists>ses. session (dcbs wd p) = Some ses \<and> close_reason (sessions wd' ses) = SESSION_CLOSE_TIMEOUT"
      if t: "timed_out now wd p"
    proof -
      from t obtain ses where s: "session (dcbs wd p) = Some ses"
        by (auto simp: timed_out_def split: option.splits)
      with t p have "\<exists>q \<in> set (m_dcbs (self wd)). timed_out now wd q \<and> session (dcbs wd q) = Some ses"
        by blast
      then have "close_reason (sessions wd' ses) = SESSION_CLOSE_TIMEOUT"
        by (simp add: se)
      with s show ?thesis by blast
    qed
    have c: "dcbs wd' p = dcbs wd p" if "\<not> timed_out now wd p"
      using that p by (simp add: dc hangups_due_pos)
    from a b c show ?thesis by blast
  qed
  have out: "dcbs wd' p = dcbs wd p" if "p \<notin> set (m_dcbs (self wd))" for p
    using that by (simp add: dc)
  have chg: "\<exists>p \<in> set (m_dcbs (self wd)). timed_out now wd p \<and> session (dcbs wd p) = Some ses"
    if "sessions wd' ses \<noteq> sessions wd ses" for ses
    using that by (simp add: se split: if_splits)
  show ?thesis
  proof (intro conjI impI)
    assume "now < m_next_timeout_check (self wd)"
    with True show "wd' = wd" by simp
  next
    show "m_next_timeout_check (self wd') = now + 10" by (rule dl)
  next
    show "m_next_timeout_check (self wd) + 10 \<le> m_next_timeout_check (self wd')"
      using dl True by simp
  next
    assume "conn_idle_timeout config = 0"
    then show "\<not> idle_too_long now config d" by (simp add: idle_too_long_def)
  next
    assume "net_write_timeout config = 0"
    then show "\<not> write_too_long now config d" by (simp add: write_too_long_def)
  next
    show "\<forall>p \<in> set (m_dcbs (self wd)).
                  (timed_out now wd p \<longleftrightarrow> triggered_hangups (dcbs wd p) < triggered_hangups (dcbs wd' p))
                  \<and> (timed_out now wd p \<longrightarrow>
                        (\<exists>ses. session (dcbs wd p) = Some ses
                           \<and> close_reason (sessions wd' ses) = SESSION_CLOSE_TIMEOUT))
                  \<and> (\<not> timed_out now wd p \<longrightarrow> dcbs wd' p = dcbs wd p)"
      by (rule ballI) (rule per)
  next
    show "\<forall>p. p \<notin> set (m_dcbs (self wd)) \<longrightarrow> dcbs wd' p = dcbs wd p"
      by (intro allI impI) (rule out)
  next
    show "\<forall>ses. sessions wd' ses \<noteq> sessions wd ses \<longrightarrow>
                  (\<exists>p \<in> set (m_dcbs (self wd)). timed_out now wd p \<and> session (dcbs wd p) = Some ses)"
      by (intro allI impI) (rule chg)
  qed
qed

theorem process_timeouts_scan_witness:
  "distinct (m_dcbs (self ex_clients))
   \<and> process_timeouts 61 ex_clients
       = Inr (hang 1 1 (upd_self (\<lambda>w. w\<lparr>m_next_timeout_check := 71\<rparr>) ex_clients))
   \<and> m_next_timeout_check (self ex_clients) \<le> 61
   \<and> timed_out 61 ex_clients 1
   \<and> triggered_hangups (dcbs ex_clients 1)
       < triggered_hangups (dcbs (hang 1 1 (upd_self (\<lambda>w. w\<lparr>m_next_timeout_check := 71\<rparr>) ex_clients)) 1)
   \<and> dcbs (hang 1 1 (upd_self (\<lambda>w. w\<lparr>m_next_timeout_check := 71\<rparr>) ex_clients)) 2 = dcbs ex_clients 2"
proof -
  have d: "distinct (m_dcbs (self ex_clients))"
    by (simp add: ex_clients_def blank_world_def ex_worker_def)
  have dl: "m_next_timeout_check (self ex_clients) \<le> 61"
    by (simp add: ex_clients_def blank_world_def ex_worker_def)
  have m: "1 \<in> set (m_dcbs (self ex_clients))" "2 \<in> set (m_dcbs (self ex_clients))"
    by (simp_all add: ex_clients_def blank_world_def ex_worker_def)
  have t1: "timed_out 61 ex_clients 1"
    by (simp add: timed_out_def examined_def idle_too_long_def ex_clients_def blank_world_def
        blank_dcb_def blank_session_def)
  have t2: "\<not> timed_out 61 ex_clients 2"
    by (simp add: timed_out_def examined_def idle_too_long_def write_too_long_def ex_clients_def
        blank_world_def blank_dcb_def blank_session_def)
  from process_timeouts_scan [OF d ex_clients_scan] dl m t1 t2 d ex_clients_scan
  show ?thesis by blast
qed

text \<open>
  C5 as stated fails in its last clause: the deadline does not advance by 10 ticks each
  time the scan runs. With the deadline at 0 and the loop reaching the scan at clock 61,
  the scan runs and leaves the deadline at 71, which is 61 ticks more than 10 ticks
  after the old deadline.
\<close>

theorem process_timeouts_deadline_counterexample:
  "m_next_timeout_check (self ex_clients) = 0
   \<and> process_timeouts 61 ex_clients
       = Inr (hang 1 1 (upd_self (\<lambda>w. w\<lparr>m_next_timeout_check := 71\<rparr>) ex_clients))
   \<and> m_next_timeout_check (self (hang 1 1 (upd_self (\<lambda>w. w\<lparr>m_next_timeout_check := 71\<rparr>) ex_clients)))
       = 71
   \<and> m_next_timeout_check (self (hang 1 1 (upd_self (\<lambda>w. w\<lparr>m_next_timeout_check := 71\<rparr>) ex_clients)))
       \<noteq> m_next_timeout_check (self ex_clients) + 10"
  by (simp add: ex_clients_scan)
     (simp add: hang_def trigger_hangup_event_def ex_clients_def blank_world_def ex_worker_def)

subsection \<open>The zombie queue\<close>

lemma call_destroy_queue:
  "call_destroy closes d w = w\<lparr>m_zombies := m_zombies w @ closes d\<rparr>"
proof -
  have "fold destroy ds w = w\<lparr>m_zombies := m_zombies w @ ds\<rparr>" for ds
    by (induction ds arbitrary: w) (simp_all add: destroy_def)
  then show ?thesis by (simp add: call_destroy_def)
qed

lemma delete_zombies_drains:
  assumes "cascades_end closes weight"
  shows "\<exists>new. delete_zombies closes w destroyed = Some (w\<lparr>m_zombies := []\<rparr>, destroyed @ new)
           \<and> set (m_zombies w) \<subseteq> set new
           \<and> (\<forall>d \<in> set new. set (closes d) \<subseteq> set new)
           \<and> (m_zombies w \<noteq> [] \<longrightarrow> new \<noteq> [] \<and> hd new = last (m_zombies w))
           \<and> (m_zombies w = [] \<longrightarrow> new = [])"
proof (induction "sum_list (map weight (m_zombies w))" arbitrary: w destroyed rule: less_induct)
  case less
  show ?case
  proof (cases "m_zombies w = []")
    case True
    then have "w\<lparr>m_zombies := []\<rparr> = w" by simp
    with True have "delete_zombies closes w destroyed = Some (w\<lparr>m_zombies := []\<rparr>, destroyed @ [])"
      by (subst delete_zombies.simps) simp
    with True show ?thesis by (intro exI [of _ "[]"]) simp
  next
    case False
    define d where "d = last (m_zombies w)"
    define zs where "zs = butlast (m_zombies w)"
    have q: "m_zombies w = zs @ [d]" using False by (simp add: d_def zs_def)
    let ?w = "call_destroy closes d (w\<lparr>m_zombies := zs\<rparr>)"
    have w2: "?w = w\<lparr>m_zombies := zs @ closes d\<rparr>" by (simp add: call_destroy_queue)
    from assms have "sum_list (map weight (closes d)) < weight d" by (simp add: cascades_end_def)
    then have "sum_list (map weight (m_zombies ?w)) < sum_list (map weight (m_zombies w))"
      by (simp add: w2 q)
    from less [OF this, of "destroyed @ [d]"]
    obtain new where r: "delete_zombies closes ?w (destroyed @ [d]) = Some (?w\<lparr>m_zombies := []\<rparr>, (destroyed @ [d]) @ new)"
      and sub: "set (m_zombies ?w) \<subseteq> set new"
      and cl: "\<forall>d \<in> set new. set (closes d) \<subseteq> set new"
      by blast
    have "delete_zombies closes w destroyed = delete_zombies closes ?w (destroyed @ [d])"
      using False by (subst delete_zombies.simps) (simp add: d_def zs_def)
    with r have res: "delete_zombies closes w destroyed = Some (w\<lparr>m_zombies := []\<rparr>, destroyed @ (d # new))"
      by (simp add: w2)
    have "set (m_zombies w) \<subseteq> set (d # new)" using sub by (auto simp: w2 q)
    moreover have "\<forall>x \<in> set (d # new). set (closes x) \<subseteq> set (d # new)"
      using sub cl by (auto simp: w2)
    ultimately show ?thesis using res False by (intro exI [of _ "d # new"]) (simp add: d_def)
  qed
qed

lemma scan_dcbs_self:
  "scan_dcbs now ps cur = Inr wd' \<Longrightarrow> self wd' = self cur"
proof (induction ps arbitrary: cur)
  case Nil
  then show ?case by simp
next
  case (Cons p ps)
  from Cons.prems obtain cur1 where p1: "process_dcb now p cur = Inr cur1"
    and rest: "scan_dcbs now ps cur1 = Inr wd'"
    by (auto split: sum.splits)
  from process_dcb_result [OF p1] have "self cur1 = self cur" by (simp add: time_out_reads)
  with Cons.IH [OF rest] show ?case by simp
qed

lemma process_timeouts_zombies:
  "process_timeouts now wd = Inr wd1 \<Longrightarrow> m_zombies (self wd1) = m_zombies (self wd)"
  by (auto simp: process_timeouts_def split: if_splits dest!: scan_dcbs_self)

lemma hooks_keep_empty:
  "hooks_enqueue_nothing fs \<Longrightarrow> m_zombies (self wd) = [] \<Longrightarrow>
     m_zombies (self (fold (\<lambda>func. func) fs wd)) = []"
proof (induction fs arbitrary: wd)
  case Nil
  then show ?case by simp
next
  case (Cons f fs)
  from Cons.prems have "hooks_enqueue_nothing fs" "m_zombies (self (f wd)) = []"
    by (simp_all add: hooks_enqueue_nothing_def)
  from Cons.IH [OF this] show ?case by simp
qed

lemma ex_cascades_end: "cascades_end ex_closes ex_weight"
  by (simp add: cascades_end_def ex_closes_def ex_weight_def)

lemma ex_zombies_timeouts: "process_timeouts 0 ex_zombies = Inr ex_zombies"
  by (simp add: process_timeouts_def ex_zombies_def blank_world_def ex_worker_def)

text \<open>
  C7, as amended. When the cascades of closes end, \<open>delete_zombies\<close> returns; it pops
  the last element first; on return the queue is empty and nothing else of the worker
  has changed; every DCB that was in the queue has been destroyed, and so has every DCB
  that the destruction of a destroyed DCB enqueued. \<open>epoll_tick\<close> runs the drain after
  the timeout scan and before the registered tick functions, so the queue is empty
  when \<open>epoll_tick\<close> returns, at the top of the next loop turn, provided the tick
  functions enqueue nothing.
\<close>

theorem delete_zombies_drains_queue:
  assumes "cascades_end closes weight"
    and "hooks_enqueue_nothing tick_funcs"
    and "process_timeouts now wd = Inr wd1"
  shows "(\<exists>new. delete_zombies closes w destroyed = Some (w\<lparr>m_zombies := []\<rparr>, destroyed @ new)
            \<and> set (m_zombies w) \<subseteq> set new
            \<and> (\<forall>d \<in> set new. set (closes d) \<subseteq> set new)
            \<and> (m_zombies w \<noteq> [] \<longrightarrow> new \<noteq> [] \<and> hd new = last (m_zombies w))
            \<and> (m_zombies w = [] \<longrightarrow> new = []))
       \<and> (\<exists>wd'. epoll_tick now closes tick_funcs wd = Some (Inr wd') \<and> m_zombies (self wd') = [])"
proof -
  from delete_zombies_drains [OF assms(1), of "self wd1" "[]"]
  obtain new where "delete_zombies closes (self wd1) [] = Some ((self wd1)\<lparr>m_zombies := []\<rparr>, new)"
    by auto
  with assms(3) have "epoll_tick now closes tick_funcs wd
      = Some (Inr (fold (\<lambda>func. func) tick_funcs (wd1\<lparr>self := (self wd1)\<lparr>m_zombies := []\<rparr>\<rparr>)))"
    by (simp add: epoll_tick_def)
  moreover have "m_zombies (self (fold (\<lambda>func. func) tick_funcs (wd1\<lparr>self := (self wd1)\<lparr>m_zombies := []\<rparr>\<rparr>))) = []"
    by (rule hooks_keep_empty [OF assms(2)]) simp
  ultimately have "\<exists>wd'. epoll_tick now closes tick_funcs wd = Some (Inr wd') \<and> m_zombies (self wd') = []"
    by blast
  with delete_zombies_drains [OF assms(1), of w destroyed] show ?thesis by blast
qed

theorem delete_zombies_drains_queue_witness:
  "cascades_end ex_closes ex_weight
   \<and> hooks_enqueue_nothing [\<lambda>wd. wd]
   \<and> process_timeouts 0 ex_zombies = Inr ex_zombies
   \<and> (\<exists>new. delete_zombies ex_closes (self ex_zombies) []
                 = Some ((self ex_zombies)\<lparr>m_zombies := []\<rparr>, new)
             \<and> set [4, 1, 2, 3] \<subseteq> set new)
   \<and> (\<exists>wd'. epoll_tick 0 ex_closes [\<lambda>wd. wd] ex_zombies = Some (Inr wd') \<and> m_zombies (self wd') = [])"
proof -
  have h: "hooks_enqueue_nothing [\<lambda>wd. wd]" by (simp add: hooks_enqueue_nothing_def)
  have z: "m_zombies (self ex_zombies) = [4, 1]"
    by (simp add: ex_zombies_def blank_world_def ex_worker_def)
  from delete_zombies_drains_queue [OF ex_cascades_end h ex_zombies_timeouts, of "self ex_zombies" "[]"]
  obtain new where n: "delete_zombies ex_closes (self ex_zombies) []
                 = Some ((self ex_zombies)\<lparr>m_zombies := []\<rparr>, new)"
     "set (m_zombies (self ex_zombies)) \<subseteq> set new" "\<forall>d \<in> set new. set (ex_closes d) \<subseteq> set new"
    and t: "\<exists>wd'. epoll_tick 0 ex_closes [\<lambda>wd. wd] ex_zombies = Some (Inr wd') \<and> m_zombies (self wd') = []"
    by auto
  from n(2) z have "1 \<in> set new" "4 \<in> set new" by auto
  with n(3) have "set [4, 1, 2, 3] \<subseteq> set new" by (auto simp: ex_closes_def)
  with n(1) t ex_cascades_end h ex_zombies_timeouts show ?thesis by blast
qed

text \<open>
  C7 as stated fails: a registered tick function that hands a DCB to \<open>destroy\<close> runs
  after the drain and leaves the queue non-empty at the end of the tick.
\<close>

theorem epoll_tick_hook_enqueues_counterexample:
  "epoll_tick 0 ex_closes [upd_self (destroy 7)] ex_zombies
     = Some (Inr (upd_self (destroy 7) (ex_zombies\<lparr>self := (self ex_zombies)\<lparr>m_zombies := []\<rparr>\<rparr>)))
   \<and> m_zombies (self (upd_self (destroy 7) (ex_zombies\<lparr>self := (self ex_zombies)\<lparr>m_zombies := []\<rparr>\<rparr>))) = [7]"
proof -
  from delete_zombies_drains [OF ex_cascades_end, of "self ex_zombies" "[]"]
  obtain new where "delete_zombies ex_closes (self ex_zombies) []
                 = Some ((self ex_zombies)\<lparr>m_zombies := []\<rparr>, new)"
    by auto
  then show ?thesis
    by (simp add: epoll_tick_def ex_zombies_timeouts destroy_def)
qed

subsection \<open>The pool of persistent connections\<close>


lemma int_of_long_range:
  "INT_MIN \<le> int_of_long v" "int_of_long v \<le> INT_MAX"
  by (simp_all add: int_of_long_def INT_MIN_def INT_MAX_def)

lemma set_entries_fields [simp]:
  "m_zombies (set_entries pS es w) = m_zombies w"
  "m_dcbs (set_entries pS es w) = m_dcbs w"
  "m_evicting (set_entries pS es w) = m_evicting w"
  "m_id (set_entries pS es w) = m_id w"
  "m_next_timeout_check (set_entries pS es w) = m_next_timeout_check w"
  by (simp_all add: set_entries_def)

lemma close_pooled_dcb_reads:
  "entries_of (self (close_pooled_dcb p wd)) pS = entries_of (self wd) pS"
  "servers (close_pooled_dcb p wd) = servers wd"
  "sessions (close_pooled_dcb p wd) = sessions wd"
  "m_evicting (self (close_pooled_dcb p wd)) = m_evicting (self wd)"
  "m_zombies (self (close_pooled_dcb p wd)) = m_zombies (self wd) @ [p]"
  "set (m_dcbs (self (close_pooled_dcb p wd))) = insert p (set (m_dcbs (self wd)))"
  "reuse_connection (dcbs (close_pooled_dcb p wd) q) = reuse_connection (dcbs wd q)"
  "hanged_up (dcbs (close_pooled_dcb p wd) q) = hanged_up (dcbs wd q)"
  "server (dcbs (close_pooled_dcb p wd) q) = server (dcbs wd q)"
  "q \<noteq> p \<Longrightarrow> dcbs (close_pooled_dcb p wd) q = dcbs wd q"
  by (auto simp: close_pooled_dcb_def DCB_close_evicting_def dcb_methods Let_def
      dcbs_insert_def destroy_def)

lemma fold_close_pooled_dcb_reads:
  "entries_of (self (fold close_pooled_dcb ps wd)) pS = entries_of (self wd) pS"
  "servers (fold close_pooled_dcb ps wd) = servers wd"
  "sessions (fold close_pooled_dcb ps wd) = sessions wd"
  "m_evicting (self (fold close_pooled_dcb ps wd)) = m_evicting (self wd)"
  "m_zombies (self (fold close_pooled_dcb ps wd)) = m_zombies (self wd) @ ps"
  "set (m_dcbs (self (fold close_pooled_dcb ps wd))) = set ps \<union> set (m_dcbs (self wd))"
  "reuse_connection (dcbs (fold close_pooled_dcb ps wd) q) = reuse_connection (dcbs wd q)"
  "hanged_up (dcbs (fold close_pooled_dcb ps wd) q) = hanged_up (dcbs wd q)"
  "server (dcbs (fold close_pooled_dcb ps wd) q) = server (dcbs wd q)"
  "q \<notin> set ps \<Longrightarrow> dcbs (fold close_pooled_dcb ps wd) q = dcbs wd q"
  by (induction ps arbitrary: wd; simp add: close_pooled_dcb_reads; blast?)+

lemma fold_close_nothing [simp]: "fold close_pooled_dcb [] wd = wd"
  by simp

lemma evict_loop_counts:
  "evict_loop hup evict_all now maxtime poolmax es count n = (kept, tbe, c, n') \<Longrightarrow>
     c = count + int (length kept) \<and> n' = n - int (length tbe)
     \<and> length kept + length tbe = length es"
proof (induction es arbitrary: count n kept tbe c n')
  case Nil
  then show ?case by simp
next
  case (Cons e es)
  show ?case
  proof (cases "hup (m_pDcb e) \<or> (evict_all \<or> now - m_created e > maxtime) \<or> count > poolmax")
    case True
    with Cons.prems obtain tbe' where
      r: "evict_loop hup evict_all now maxtime poolmax es count (n - 1) = (kept, tbe', c, n')"
      and t: "tbe = m_pDcb e # tbe'"
      by (auto simp: Let_def split: prod.splits)
    from Cons.IH [OF r] t show ?thesis by simp
  next
    case False
    with Cons.prems obtain kept' where
      r: "evict_loop hup evict_all now maxtime poolmax es (count + 1) n = (kept', tbe, c, n')"
      and t: "kept = e # kept'"
      by (auto simp: Let_def split: prod.splits)
    from Cons.IH [OF r] t show ?thesis by simp
  qed
qed

lemma evict_dcbs_scan:
  assumes "scan now pS evict wd = (kept, tbe, c, n')"
  shows "evict_dcbs now pS evict wd =
     (c, upd_self (\<lambda>w. w\<lparr>m_evicting := False\<rparr>)
           (fold close_pooled_dcb tbe
              (upd_server pS (\<lambda>s. s\<lparr>persistmax := max (persistmax s) c\<rparr>)
                 (upd_server pS (\<lambda>s. s\<lparr>n_persistent := n'\<rparr>)
                    (upd_self (set_entries pS kept)
                       (upd_self (\<lambda>w. w\<lparr>m_evicting := True\<rparr>) wd))))))"
proof -
  have "((if \<not> status_running (servers wd pS) then Evict_ALL else evict) = Evict_ALL)
          = (\<not> status_running (servers wd pS) \<or> evict = Evict_ALL)"
    by simp
  with assms show ?thesis
    unfolding evict_dcbs_def scan_def by (simp add: Let_def)
qed

lemma evict_dcbs_reads:
  assumes "scan now pS evict wd = (kept, tbe, c, n')"
  shows "fst (evict_dcbs now pS evict wd) = c"
    "entries_of (self (snd (evict_dcbs now pS evict wd))) pS'
       = (if pS' = pS then kept else entries_of (self wd) pS')"
    "servers (snd (evict_dcbs now pS evict wd))
       = (servers wd)(pS := (servers wd pS)\<lparr>n_persistent := n', persistmax := max (persistmax (servers wd pS)) c\<rparr>)"
    "sessions (snd (evict_dcbs now pS evict wd)) = sessions wd"
    "m_evicting (self (snd (evict_dcbs now pS evict wd))) = False"
    "m_zombies (self (snd (evict_dcbs now pS evict wd))) = m_zombies (self wd) @ tbe"
    "set (m_dcbs (self (snd (evict_dcbs now pS evict wd)))) = set tbe \<union> set (m_dcbs (self wd))"
    "reuse_connection (dcbs (snd (evict_dcbs now pS evict wd)) q) = reuse_connection (dcbs wd q)"
    "hanged_up (dcbs (snd (evict_dcbs now pS evict wd)) q) = hanged_up (dcbs wd q)"
    "server (dcbs (snd (evict_dcbs now pS evict wd)) q) = server (dcbs wd q)"
    "q \<notin> set tbe \<Longrightarrow> dcbs (snd (evict_dcbs now pS evict wd)) q = dcbs wd q"
    "tbe = [] \<Longrightarrow> m_dcbs (self (snd (evict_dcbs now pS evict wd))) = m_dcbs (self wd)"
  unfolding evict_dcbs_scan [OF assms]
  by (simp_all add: fold_close_pooled_dcb_reads fun_eq_iff)

lemma ex_live_scan: "scan 0 0 Evict_EXPIRED ex_live = ([], [], 0, 0)"
  by (simp add: scan_def ex_live_def blank_world_def ex_worker_def entries_of_def blank_server_def)

lemma ex_live_facts:
  "server (dcbs ex_live 11) = 0" "poolable ex_live 11" "\<not> m_evicting (self ex_live)"
  "int_of_long (persistpoolmax (servers ex_live 0)) = 2"
  by (simp_all add: ex_live_def blank_world_def ex_worker_def blank_dcb_def blank_server_def
      blank_session_def poolable_def int_of_long_def)

lemma ex_release: "can_be_destroyed 0 11 ex_live = Inr (False, ex_pooled)"
proof -
  have "can_be_destroyed 0 11 ex_live
          = (case add_to_pool 0 11 0
                    (upd_server 0 (\<lambda>s. s\<lparr>n_persistent := 1\<rparr>) (snd (evict_dcbs 0 0 Evict_EXPIRED ex_live))) of
               Inl f \<Rightarrow> Inl f | Inr wd2 \<Rightarrow> Inr (False, wd2))"
    by (simp add: can_be_destroyed_def ex_live_facts Let_def evict_dcbs_scan [OF ex_live_scan]
        add_limited_def)
  also have "\<dots> = Inr (False, ex_pooled)"
    unfolding evict_dcbs_scan [OF ex_live_scan]
    by (simp add: ex_live_def ex_pooled_def blank_world_def ex_worker_def blank_dcb_def
        blank_server_def add_to_pool_def dcb_methods upd_self_def upd_dcb_def upd_server_def
        set_entries_def entries_of_def dcbs_erase_def fun_eq_iff Let_def)
  finally show ?thesis .
qed

lemma ex_spurious: "evict_dcb 11 ex_pooled = Inr ex_evicted"
  by (simp add: evict_dcb_def ex_pooled_def ex_evicted_def blank_world_def ex_worker_def blank_dcb_def blank_server_def
      close_pooled_dcb_def DCB_close_evicting_def dcb_methods upd_self_def upd_dcb_def upd_server_def
      set_entries_def entries_of_def dcbs_insert_def destroy_def fun_eq_iff Let_def)




lemmas ex_blank = blank_world_def ex_worker_def blank_dcb_def blank_server_def blank_session_def









text \<open>
  With a maximum of \<open>2 ^ 32 + 1\<close> the \<open>int\<close> of \<open>can_be_destroyed\<close> holds 1: the scan, which
  compares with the maximum itself, keeps the one pooled entry, and the release is
  refused because the count 1 is not below 1.
\<close>

lemma ex_wide_scan:
  "scan 0 0 Evict_EXPIRED ex_wide = ([\<lparr>m_created = 0, m_pDcb = 21\<rparr>], [], 1, 1)"
  by (simp add: scan_def ex_wide_def ex_capped_def ex_blank entries_of_def)

lemma ex_wide_refused:
  "int_of_long (persistpoolmax (servers ex_wide 0)) = 1"
  "can_be_destroyed 0 11 ex_wide = Inr (True, snd (evict_dcbs 0 0 Evict_EXPIRED ex_wide))"
proof -
  have f: "server (dcbs ex_wide 11) = 0" "poolable ex_wide 11" "\<not> m_evicting (self ex_wide)"
    "int_of_long (persistpoolmax (servers ex_wide 0)) = 1"
    by (simp_all add: ex_wide_def ex_capped_def ex_blank poolable_def int_of_long_def)
  show "int_of_long (persistpoolmax (servers ex_wide 0)) = 1" by (rule f(4))
  show "can_be_destroyed 0 11 ex_wide = Inr (True, snd (evict_dcbs 0 0 Evict_EXPIRED ex_wide))"
    by (simp add: can_be_destroyed_def f Let_def evict_dcbs_scan [OF ex_wide_scan])
qed


lemma evict_dcb_counter:
  assumes "evict_dcb p wd = Inr wd'"
  shows "servers wd' = servers wd"
    and "Suc (length (entries_of (self wd') (server (dcbs wd p))))
           = length (entries_of (self wd) (server (dcbs wd p)))"
proof -
  let ?pS = "server (dcbs wd p)"
  let ?es = "entries_of (self wd) ?pS"
  from assms obtain entry where f: "find (\<lambda>entry. m_pDcb entry = p) ?es = Some entry"
    by (auto simp: evict_dcb_def Let_def split: option.splits)
  then have mem: "entry \<in> set ?es"
    by (auto simp: find_Some_iff)
  from assms f have wd': "wd' = upd_self (\<lambda>w. w\<lparr>m_evicting := False\<rparr>)
        (close_pooled_dcb p (upd_self (set_entries ?pS (remove1 entry ?es))
            (upd_self (\<lambda>w. w\<lparr>m_evicting := True\<rparr>) wd)))"
    by (simp add: evict_dcb_def Let_def)
  show "servers wd' = servers wd"
    by (simp add: wd' close_pooled_dcb_reads)
  have "entries_of (self wd') ?pS = remove1 entry ?es"
    by (simp add: wd' close_pooled_dcb_reads)
  with mem show "Suc (length (entries_of (self wd') ?pS)) = length ?es"
    by (simp add: length_remove1) (cases ?es; simp)
qed

lemma evict_loop_bound:
  "evict_loop hup evict_all now maxtime poolmax es count n = (kept, tbe, c, n') \<Longrightarrow>
     c \<le> max count (poolmax + 1)"
proof (induction es arbitrary: count n kept tbe c n')
  case Nil
  then show ?case by simp
next
  case (Cons e es)
  show ?case
  proof (cases "hup (m_pDcb e) \<or> (evict_all \<or> now - m_created e > maxtime) \<or> count > poolmax")
    case True
    with Cons.prems obtain tbe' where
      r: "evict_loop hup evict_all now maxtime poolmax es count (n - 1) = (kept, tbe', c, n')"
      by (auto simp: Let_def split: prod.splits)
    from Cons.IH [OF r] show ?thesis .
  next
    case False
    with Cons.prems obtain kept' where
      r: "evict_loop hup evict_all now maxtime poolmax es (count + 1) n = (kept', tbe, c, n')"
      by (auto simp: Let_def split: prod.splits)
    from Cons.IH [OF r] False show ?thesis by simp
  qed
qed

text \<open>
  C1 fails on the code. A DCB is released into the pool at time 0: the counter
  \<open>n_persistent\<close> and the number of pooled entries are both 1. Then an event arrives
  on the pooled DCB and the pool handler calls \<open>evict_dcb\<close>: the entry leaves the pool
  but \<open>evict_dcb\<close> does not touch the counter, which stays at 1 with no entry pooled
  (\<open>evict_dcb_counter\<close> shows this for every world).
\<close>

theorem evict_dcb_leaves_n_persistent:
  "can_be_destroyed 0 11 ex_live = Inr (False, ex_pooled)
   \<and> n_persistent (servers ex_pooled 0) = int (pooled_in [self ex_pooled] 0)
   \<and> evict_dcb 11 ex_pooled = Inr ex_evicted
   \<and> pooled_in [self ex_evicted] 0 = 0
   \<and> n_persistent (servers ex_evicted 0) = 1"
  by (simp add: ex_release ex_spurious)
     (simp add: pooled_in_def ex_pooled_def ex_evicted_def ex_blank entries_of_def)

lemma ex_oversize_scan:
  "scan 10 0 Evict_EXPIRED ex_oversize
     = ([\<lparr>m_created = 10, m_pDcb = 21\<rparr>, \<lparr>m_created = 10, m_pDcb = 22\<rparr>, \<lparr>m_created = 10, m_pDcb = 23\<rparr>],
        [24], 3, 3)"
  by (simp add: scan_def ex_oversize_def ex_blank entries_of_def)

text \<open>
  C3 fails on the code. The scan tests \<open>count > persistpoolmax\<close> before it increments
  \<open>count\<close>, so it stops removing only when \<open>persistpoolmax + 1\<close> entries are kept
  (\<open>evict_loop_bound\<close>): of four live entries with a maximum of 2 it keeps three.
\<close>

theorem evict_dcbs_keeps_one_too_many:
  "persistpoolmax (servers ex_oversize 0) = 2
   \<and> status_running (servers ex_oversize 0)
   \<and> length (entries_of (self ex_oversize) 0) = 4
   \<and> fst (evict_dcbs 10 0 Evict_EXPIRED ex_oversize) = 3
   \<and> entries_of (self (snd (evict_dcbs 10 0 Evict_EXPIRED ex_oversize))) 0
       = [\<lparr>m_created = 10, m_pDcb = 21\<rparr>, \<lparr>m_created = 10, m_pDcb = 22\<rparr>, \<lparr>m_created = 10, m_pDcb = 23\<rparr>]
   \<and> m_zombies (self (snd (evict_dcbs 10 0 Evict_EXPIRED ex_oversize))) = [24]"
  by (simp add: evict_dcbs_reads [OF ex_oversize_scan])
     (simp add: ex_oversize_def ex_blank entries_of_def)










text \<open>
  The flag decides the close of DCB 21: it meets the conditions of the pool in the
  world \<open>before_close\<close>, and with the flag cleared there \<open>DCB::close\<close> would not destroy
  it but take it for the pool, where the erasure from the live set, which does not
  hold a popped DCB, is a fault.
\<close>

lemma ex_reuse_flag_needed:
  "(case DCB_close 0 21
           (upd_self (\<lambda>w. w\<lparr>m_evicting := False\<rparr>)
              (before_close 21
                 (popped 0 5 \<lparr>m_created = 0, m_pDcb = 21\<rparr> [\<lparr>m_created = 0, m_pDcb = 22\<rparr>]
                    (snd (evict_dcbs 0 0 Evict_EXPIRED ex_reuse))))) of
      Inl f \<Rightarrow> f = OUT_OF_BOUNDS
    | Inr w \<Rightarrow> False)"
  by code_simp


end
